theory Spec2Isabelle
  imports Main
begin

section \<open>Text primitives of the Python runtime\<close>

text \<open>
  A document is the list of lines that \<^verbatim>\<open>readlines()\<close> returns: every line keeps its
  terminator. Characters are the code points 0 to 255. On these, Python's
  \<^verbatim>\<open>str.isspace\<close>, the regular-expression class \<^verbatim>\<open>\s\<close> and the whitespace of
  \<^verbatim>\<open>strip\<close>, \<^verbatim>\<open>lstrip\<close> and \<^verbatim>\<open>split\<close> are one and the same set:
  TAB, LF, VT, FF, CR, the separators 0x1C to 0x1F, the blank, NEL (0x85) and the
  no-break space (0xA0).
\<close>

definition is_space :: "char \<Rightarrow> bool" where
  "is_space c \<longleftrightarrow> c \<in> set [CHR 0x09, CHR 0x0A, CHR 0x0B, CHR 0x0C, CHR 0x0D,
      CHR 0x1C, CHR 0x1D, CHR 0x1E, CHR 0x1F, CHR 0x20, CHR 0x85, CHR 0xA0]"

definition lstrip :: "string \<Rightarrow> string" where
  "lstrip s = dropWhile is_space s"

definition rstrip :: "string \<Rightarrow> string" where
  "rstrip s = rev (dropWhile is_space (rev s))"

definition strip :: "string \<Rightarrow> string" where
  "strip s = lstrip (rstrip s)"

definition startswith :: "string \<Rightarrow> string \<Rightarrow> bool" where
  "startswith s p \<longleftrightarrow> take (length p) s = p"

text \<open>
  \<^verbatim>\<open>s.split()\<close> without arguments: the maximal runs of non-whitespace characters, in
  order. The first argument is the token being read.
\<close>

fun split_from :: "string \<Rightarrow> string \<Rightarrow> string list" where
  "split_from cur [] = (if cur = [] then [] else [cur])"
| "split_from cur (c # cs) =
     (if is_space c then (if cur = [] then split_from [] cs else cur # split_from [] cs)
      else split_from (cur @ [c]) cs)"

definition py_split :: "string \<Rightarrow> string list" where
  "py_split s = split_from [] s"

text \<open>\<^verbatim>\<open>needle in s\<close> on strings: \<^verbatim>\<open>needle\<close> occurs somewhere in \<^verbatim>\<open>s\<close>.\<close>

fun py_in :: "string \<Rightarrow> string \<Rightarrow> bool" where
  "py_in needle [] = (needle = [])"
| "py_in needle (c # cs) = (startswith (c # cs) needle \<or> py_in needle cs)"

section \<open>The two regular expressions of the parser\<close>

text \<open>
  \<^verbatim>\<open>$\<close> (no MULTILINE flag) matches at the end of the string and just before a newline
  that is the last character of the string.
\<close>

definition at_dollar :: "string \<Rightarrow> bool" where
  "at_dollar r \<longleftrightarrow> r = [] \<or> r = [CHR 0x0A]"

text \<open>
  \<^verbatim>\<open>(.+)$\<close> at the rest \<open>r\<close> of a line: the dot matches every character but the
  newline, and the greedy \<^verbatim>\<open>.+\<close> first takes the whole run up to the first newline.
  Giving characters back cannot help, since \<^verbatim>\<open>$\<close> would then stand before a character
  that is not a newline; so the run is the group, or there is no match from here.
\<close>

definition dot_plus_dollar :: "string \<Rightarrow> string option" where
  "dot_plus_dollar r =
     (let g = takeWhile (\<lambda>c. c \<noteq> CHR 0x0A) r in
      if g \<noteq> [] \<and> at_dollar (dropWhile (\<lambda>c. c \<noteq> CHR 0x0A) r) then Some g else None)"

text \<open>
  \<^verbatim>\<open>\s+(.+)$\<close> by backtracking: the greedy \<^verbatim>\<open>\s+\<close> is tried with \<open>k\<close> whitespace
  characters, from the longest run down to one, and the first length after which
  \<^verbatim>\<open>(.+)$\<close> matches wins. The caller passes the length of the whitespace run.
\<close>

fun spaces_then_group :: "nat \<Rightarrow> string \<Rightarrow> string option" where
  "spaces_then_group 0 s = None"
| "spaces_then_group (Suc k) s =
     (case dot_plus_dollar (drop (Suc k) s) of
        Some g \<Rightarrow> Some g
      | None \<Rightarrow> spaces_then_group k s)"

text \<open>
  \<^verbatim>\<open>re.match(r"^\s*Host\s+(.+)$", line)\<close>: \<open>None\<close> when there is no match, otherwise
  \<^verbatim>\<open>group(1)\<close>. The leading \<^verbatim>\<open>\s*\<close> takes the whole leading whitespace (a shorter
  choice leaves a whitespace character where \<^verbatim>\<open>H\<close> is required).
\<close>

definition match_host_line :: "string \<Rightarrow> string option" where
  "match_host_line line =
     (let t = dropWhile is_space line in
      if take 4 t = ''Host''
      then spaces_then_group (length (takeWhile is_space (drop 4 t))) (drop 4 t)
      else None)"

text \<open>\<^verbatim>\<open>re.match(r"^\s*Host\s+", line)\<close>: is there a match?\<close>

definition match_host_prefix :: "string \<Rightarrow> bool" where
  "match_host_prefix line =
     (let t = dropWhile is_space line in
      take 4 t = ''Host'' \<and> (case drop 4 t of [] \<Rightarrow> False | c # _ \<Rightarrow> is_space c))"

section \<open>Block descriptors and the two parsers\<close>

text \<open>
  The dictionary appended by the parsers, with its five keys. The key \<^verbatim>\<open>end\<close> is
  the field \<open>end_index\<close>; \<open>marker_index\<close> is \<open>-1\<close> when the block has no marker.
\<close>

record block =
  start :: nat
  end_index :: nat
  hosts :: "string list"
  managed :: bool
  marker_index :: int

text \<open>
  The inner \<^verbatim>\<open>while i < len(lines) and not re.match(r"^\s*Host\s+", lines[i])\<close>.
\<close>

function find_block_end :: "string list \<Rightarrow> nat \<Rightarrow> nat" where
  "find_block_end lines i =
     (if i < length lines \<and> \<not> match_host_prefix (lines ! i)
      then find_block_end lines (i + 1) else i)"
  by pat_completeness auto
termination
  by (relation "measure (\<lambda>(lines, i). length lines - i)") auto

declare find_block_end.simps [simp del]

text \<open>
  The \<^verbatim>\<open>for j in range(start + 1, end)\<close> loop with its \<^verbatim>\<open>break\<close>: the first
  body line that starts, after \<^verbatim>\<open>lstrip\<close>, with the marker prefix. The constant
  \<^verbatim>\<open>MARKER_PREFIX\<close> is imported from \<^verbatim>\<open>rp.config\<close>; it is the parameter \<open>mp\<close>
  of every function that reads it.
\<close>

definition find_marker :: "string \<Rightarrow> string list \<Rightarrow> nat \<Rightarrow> nat \<Rightarrow> nat option" where
  "find_marker mp lines s e =
     List.find (\<lambda>j. startswith (lstrip (lines ! j)) mp) [s + 1 ..< e]"

lemma find_block_end_step:
  "i < length lines \<Longrightarrow> \<not> match_host_prefix (lines ! i) \<Longrightarrow>
   find_block_end lines i = find_block_end lines (Suc i)"
  by (subst find_block_end.simps) simp

lemma find_block_end_stop_host:
  "match_host_prefix (lines ! i) \<Longrightarrow> find_block_end lines i = i"
  by (subst find_block_end.simps) simp

lemma find_block_end_stop_eof:
  "length lines \<le> i \<Longrightarrow> find_block_end lines i = i"
  by (subst find_block_end.simps) simp

lemma find_block_end_ge: "i \<le> find_block_end lines i"
proof (induction lines i rule: find_block_end.induct)
  case (1 lines i)
  show ?case
  proof (cases "i < length lines \<and> \<not> match_host_prefix (lines ! i)")
    case True
    with 1 have "i + 1 \<le> find_block_end lines (i + 1)" by blast
    with True show ?thesis by (simp add: find_block_end_step)
  next
    case False
    then have "find_block_end lines i = i"
      using find_block_end_stop_host find_block_end_stop_eof by (cases "i < length lines") auto
    then show ?thesis by simp
  qed
qed

text \<open>\<^verbatim>\<open>SSHManager._parse_ssh_blocks\<close> (core/ssh_manager.py), from index \<open>i\<close> on.\<close>

function (sequential) parse_blocks_from :: "string \<Rightarrow> string list \<Rightarrow> nat \<Rightarrow> block list" where
  "parse_blocks_from mp lines i =
     (if i < length lines then
        (case match_host_line (lines ! i) of
           Some g \<Rightarrow>
             \<lparr>start = i,
              end_index = find_block_end lines (i + 1),
              hosts = py_split (strip g),
              managed = (find_marker mp lines i (find_block_end lines (i + 1)) \<noteq> None),
              marker_index =
                (case find_marker mp lines i (find_block_end lines (i + 1)) of
                   None \<Rightarrow> - 1 | Some j \<Rightarrow> int j)\<rparr>
             # parse_blocks_from mp lines (find_block_end lines (i + 1))
         | None \<Rightarrow> parse_blocks_from mp lines (i + 1))
      else [])"
  by pat_completeness auto
termination
proof (relation "measure (\<lambda>(mp, lines, i). length lines - i)")
  fix mp :: string and lines :: "string list" and i :: nat and g :: string
  assume "i < length lines"
  moreover have "i + 1 \<le> find_block_end lines (i + 1)" by (rule find_block_end_ge)
  ultimately show "((mp, lines, find_block_end lines (i + 1)), (mp, lines, i))
      \<in> measure (\<lambda>(mp, lines, i). length lines - i)"
    by simp
qed auto

declare parse_blocks_from.simps [simp del]

definition SSHManager_parse_ssh_blocks :: "string \<Rightarrow> string list \<Rightarrow> block list" where
  "SSHManager_parse_ssh_blocks mp lines = parse_blocks_from mp lines 0"

text \<open>\<^verbatim>\<open>parse_ssh_blocks\<close> (ssh_config.py), the legacy module's parser, from index \<open>i\<close> on.\<close>

function (sequential) parse_ssh_blocks_from :: "string \<Rightarrow> string list \<Rightarrow> nat \<Rightarrow> block list" where
  "parse_ssh_blocks_from mp lines i =
     (if i < length lines then
        (case match_host_line (lines ! i) of
           Some m \<Rightarrow>
             \<lparr>start = i,
              end_index = find_block_end lines (i + 1),
              hosts = py_split (strip m),
              managed = (find_marker mp lines i (find_block_end lines (i + 1)) \<noteq> None),
              marker_index =
                (case find_marker mp lines i (find_block_end lines (i + 1)) of
                   None \<Rightarrow> - 1 | Some j \<Rightarrow> int j)\<rparr>
             # parse_ssh_blocks_from mp lines (find_block_end lines (i + 1))
         | None \<Rightarrow> parse_ssh_blocks_from mp lines (i + 1))
      else [])"
  by pat_completeness auto
termination
proof (relation "measure (\<lambda>(mp, lines, i). length lines - i)")
  fix mp :: string and lines :: "string list" and i :: nat and m :: string
  assume "i < length lines"
  moreover have "i + 1 \<le> find_block_end lines (i + 1)" by (rule find_block_end_ge)
  ultimately show "((mp, lines, find_block_end lines (i + 1)), (mp, lines, i))
      \<in> measure (\<lambda>(mp, lines, i). length lines - i)"
    by simp
qed auto

declare parse_ssh_blocks_from.simps [simp del]

definition parse_ssh_blocks :: "string \<Rightarrow> string list \<Rightarrow> block list" where
  "parse_ssh_blocks mp lines = parse_ssh_blocks_from mp lines 0"

section \<open>Host records and their canonical block\<close>

text \<open>\<^verbatim>\<open>str(n)\<close> of a Python integer, as the f-string of \<^verbatim>\<open>to_ssh_block\<close> renders the port.\<close>

function str_nat :: "nat \<Rightarrow> string" where
  "str_nat n =
     (if n < 10 then [char_of (48 + n)]
      else str_nat (n div 10) @ [char_of (48 + n mod 10)])"
  by pat_completeness auto
termination
  by (relation "measure id") auto

declare str_nat.simps [simp del]

definition str_int :: "int \<Rightarrow> string" where
  "str_int i = (if i < 0 then CHR ''-'' # str_nat (nat (- i)) else str_nat (nat i))"

text \<open>
  The pydantic model \<^verbatim>\<open>SSHConfig\<close> (core/models.py). Its field \<^verbatim>\<open>alias\<close> is
  \<open>host_alias\<close> here.
\<close>

record SSHConfig =
  host_alias :: string
  pod_id :: string
  hostname :: string
  port :: int
  user :: string
  identity_file :: "string option"

text \<open>
  \<^verbatim>\<open>SSHConfig.to_ssh_block\<close>. The test \<^verbatim>\<open>if self.identity_file\<close> is false for
  \<^verbatim>\<open>None\<close> and for the empty string.
\<close>

definition to_ssh_block :: "SSHConfig \<Rightarrow> string \<Rightarrow> string list" where
  "to_ssh_block self updated_timestamp =
     [''Host '' @ host_alias self @ ''\<newline>'',
      ''    # rp:managed alias='' @ host_alias self @ '' pod_id='' @ pod_id self
         @ '' updated='' @ updated_timestamp @ ''\<newline>'',
      ''    HostName '' @ hostname self @ ''\<newline>'',
      ''    User '' @ user self @ ''\<newline>'',
      ''    Port '' @ str_int (port self) @ ''\<newline>'']
     @ (case identity_file self of
          None \<Rightarrow> []
        | Some f \<Rightarrow>
            if f \<noteq> [] then [''    IdentitiesOnly yes\<newline>'', ''    IdentityFile '' @ f @ ''\<newline>'']
            else [])
     @ [''    ForwardAgent yes\<newline>'']"

section \<open>The block mutator of \<^verbatim>\<open>SSHManager\<close>\<close>

text \<open>
  Every operation loads the lines, computes, and writes the new lines. The functions
  below take the loaded lines and return the lines handed to
  \<^verbatim>\<open>_write_ssh_config_lines\<close> (the loaded lines themselves when the source returns
  before writing), together with the source's return value.
\<close>

text \<open>\<^verbatim>\<open>lines[a:b]\<close> for indices that are not negative.\<close>

definition py_slice :: "'a list \<Rightarrow> nat \<Rightarrow> nat \<Rightarrow> 'a list" where
  "py_slice xs a b = take (b - a) (drop a xs)"

text \<open>
  \<^verbatim>\<open>SSHManager.update_host_config\<close>; the timestamp that the source formats from the
  clock is the argument \<open>timestamp\<close>.
\<close>

definition update_host_config :: "string \<Rightarrow> string list \<Rightarrow> SSHConfig \<Rightarrow> string \<Rightarrow> string list" where
  "update_host_config mp lines ssh_config timestamp =
     (let blocks = SSHManager_parse_ssh_blocks mp lines;
          new_block_lines = to_ssh_block ssh_config timestamp
      in case List.find (\<lambda>block. host_alias ssh_config \<in> set (hosts block)) blocks of
           None \<Rightarrow>
             (if lines \<noteq> [] \<and> strip (last lines) \<noteq> [] then lines @ [''\<newline>''] else lines)
             @ new_block_lines
         | Some target_block \<Rightarrow>
             py_slice lines 0 (start target_block) @ new_block_lines
             @ drop (end_index target_block) lines)"

text \<open>
  The rebuilding loop shared by the remove and prune operations:
  \<^verbatim>\<open>for start, end in blocks_to_remove: new_lines.extend(lines[current_pos:start]);
  current_pos = end\<close>, then \<^verbatim>\<open>new_lines.extend(lines[current_pos:])\<close>.
\<close>

fun delete_ranges :: "string list \<Rightarrow> nat \<Rightarrow> (nat \<times> nat) list \<Rightarrow> string list" where
  "delete_ranges lines current_pos [] = drop current_pos lines"
| "delete_ranges lines current_pos ((s, e) # rest) =
     py_slice lines current_pos s @ delete_ranges lines e rest"

text \<open>\<^verbatim>\<open>SSHManager.remove_host_config\<close>.\<close>

definition remove_host_config :: "string \<Rightarrow> string list \<Rightarrow> string \<Rightarrow> string list \<times> bool" where
  "remove_host_config mp lines a =
     (if lines = [] then (lines, False)
      else
        let blocks = SSHManager_parse_ssh_blocks mp lines;
            blocks_to_remove =
              map (\<lambda>block. (start block, end_index block))
                (filter (\<lambda>block. managed block \<and> a \<in> set (hosts block)) blocks)
        in if blocks_to_remove = [] then (lines, False)
           else (delete_ranges lines 0 blocks_to_remove, True))"

text \<open>\<^verbatim>\<open>SSHManager.prune_managed_blocks\<close>.\<close>

definition prune_managed_blocks :: "string \<Rightarrow> string list \<Rightarrow> string set \<Rightarrow> string list \<times> nat" where
  "prune_managed_blocks mp lines valid_aliases =
     (if lines = [] then (lines, 0)
      else
        let blocks = SSHManager_parse_ssh_blocks mp lines;
            blocks_to_remove =
              map (\<lambda>block. (start block, end_index block))
                (filter (\<lambda>block. managed block \<and> \<not> list_ex (\<lambda>host. host \<in> valid_aliases) (hosts block))
                   blocks)
        in if blocks_to_remove = [] then (lines, 0)
           else (delete_ranges lines 0 blocks_to_remove, length blocks_to_remove))"

section \<open>Reading a host back\<close>

text \<open>
  Constructing the pydantic model validates the field \<^verbatim>\<open>port\<close>, declared with
  \<^verbatim>\<open>Field(ge=1, le=65535)\<close>: outside this range the constructor raises
  \<^verbatim>\<open>ValidationError\<close>.
\<close>

datatype error = ValidationError

definition new_SSHConfig ::
  "string \<Rightarrow> string \<Rightarrow> string \<Rightarrow> int \<Rightarrow> string \<Rightarrow> string option \<Rightarrow> error + SSHConfig" where
  "new_SSHConfig a p h n u f =
     (if 1 \<le> n \<and> n \<le> 65535
      then Inr \<lparr>host_alias = a, pod_id = p, hostname = h, port = n, user = u, identity_file = f\<rparr>
      else Inl ValidationError)"

text \<open>
  \<^verbatim>\<open>re.search(r"pod_id=([^\s]+)", line)\<close>: the leftmost place where \<^verbatim>\<open>pod_id=\<close> is
  followed by a character that is not whitespace; the group is the whole run of such
  characters.
\<close>

fun search_pod_id :: "string \<Rightarrow> string option" where
  "search_pod_id [] = None"
| "search_pod_id (c # cs) =
     (if startswith (c # cs) ''pod_id='' \<and> takeWhile (\<lambda>x. \<not> is_space x) (drop 7 (c # cs)) \<noteq> []
      then Some (takeWhile (\<lambda>x. \<not> is_space x) (drop 7 (c # cs)))
      else search_pod_id cs)"

text \<open>
  The five local variables of \<^verbatim>\<open>get_host_config\<close> (\<^verbatim>\<open>hostname\<close>, \<^verbatim>\<open>port\<close>,
  \<^verbatim>\<open>user\<close>, \<^verbatim>\<open>identity_file\<close>, \<^verbatim>\<open>pod_id\<close>) and the body of its inner loop for
  one line. A line that starts with \<^verbatim>\<open>HostName \<close> has its first occurrence of that text
  at position 0, so \<^verbatim>\<open>line.split("HostName ", 1)[1]\<close> is the line without its first
  nine characters; likewise for the other keys. The builtin \<^verbatim>\<open>int\<close> on a string is
  the parameter \<open>py_int\<close>, \<open>None\<close> where \<^verbatim>\<open>int\<close> raises \<^verbatim>\<open>ValueError\<close>, which the
  source suppresses.
\<close>

record host_fields =
  f_hostname :: "string option"
  f_port :: "int option"
  f_user :: string
  f_identity_file :: "string option"
  f_pod_id :: "string option"

definition scan_line :: "(string \<Rightarrow> int option) \<Rightarrow> string \<Rightarrow> host_fields \<Rightarrow> string \<Rightarrow> host_fields" where
  "scan_line py_int mp st raw =
     (let line = strip raw in
      if startswith line ''HostName '' then st\<lparr>f_hostname := Some (strip (drop 9 line))\<rparr>
      else if startswith line ''Port '' then
        (case py_int (strip (drop 5 line)) of None \<Rightarrow> st | Some n \<Rightarrow> st\<lparr>f_port := Some n\<rparr>)
      else if startswith line ''User '' then st\<lparr>f_user := strip (drop 5 line)\<rparr>
      else if startswith line ''IdentityFile '' then
        st\<lparr>f_identity_file := Some (strip (drop 13 line))\<rparr>
      else if startswith line mp \<and> py_in '' pod_id='' line then
        (case search_pod_id line of None \<Rightarrow> st | Some g \<Rightarrow> st\<lparr>f_pod_id := Some g\<rparr>)
      else st)"

text \<open>The inner loop \<^verbatim>\<open>for i in range(block["start"] + 1, block["end"])\<close>.\<close>

definition read_block_fields ::
  "(string \<Rightarrow> int option) \<Rightarrow> string \<Rightarrow> string list \<Rightarrow> block \<Rightarrow> host_fields" where
  "read_block_fields py_int mp lines blk =
     foldl (\<lambda>st i. scan_line py_int mp st (lines ! i))
       \<lparr>f_hostname = None, f_port = None, f_user = ''root'', f_identity_file = None,
        f_pod_id = None\<rparr>
       [start blk + 1 ..< end_index blk]"

text \<open>Python's truth value of an optional string and of an optional integer.\<close>

definition truthy_str :: "string option \<Rightarrow> bool" where
  "truthy_str s \<longleftrightarrow> (case s of None \<Rightarrow> False | Some v \<Rightarrow> v \<noteq> [])"

definition truthy_int :: "int option \<Rightarrow> bool" where
  "truthy_int n \<longleftrightarrow> (case n of None \<Rightarrow> False | Some v \<Rightarrow> v \<noteq> 0)"

text \<open>
  The outer loop of \<^verbatim>\<open>SSHManager.get_host_config\<close> over the blocks, and the function
  itself on the loaded lines. A block that has the alias and is managed but lacks a field
  does not end the search: the loop goes on to the next block.
\<close>

fun scan_blocks ::
  "(string \<Rightarrow> int option) \<Rightarrow> string \<Rightarrow> string list \<Rightarrow> string \<Rightarrow> block list \<Rightarrow> error + SSHConfig option" where
  "scan_blocks py_int mp lines a [] = Inr None"
| "scan_blocks py_int mp lines a (blk # rest) =
     (if a \<in> set (hosts blk) \<and> managed blk then
        (let st = read_block_fields py_int mp lines blk in
         if truthy_str (f_hostname st) \<and> truthy_int (f_port st) \<and> truthy_str (f_pod_id st)
         then (case new_SSHConfig a (the (f_pod_id st)) (the (f_hostname st)) (the (f_port st))
                      (f_user st) (f_identity_file st) of
                 Inl e \<Rightarrow> Inl e
               | Inr c \<Rightarrow> Inr (Some c))
         else scan_blocks py_int mp lines a rest)
      else scan_blocks py_int mp lines a rest)"

definition get_host_config ::
  "(string \<Rightarrow> int option) \<Rightarrow> string \<Rightarrow> string list \<Rightarrow> string \<Rightarrow> error + SSHConfig option" where
  "get_host_config py_int mp lines a =
     scan_blocks py_int mp lines a (SSHManager_parse_ssh_blocks mp lines)"

text \<open>
  The builtin \<^verbatim>\<open>int\<close> on a string of code points 0 to 255, for the places where a
  concrete \<open>py_int\<close> is needed: whitespace around the numeral is dropped, one sign may
  lead, the digits are ASCII digits, a single underscore may stand between two digits, and
  a numeral of more than 4300 digits is refused. \<open>None\<close> is \<^verbatim>\<open>ValueError\<close>.
\<close>

fun digits_from :: "int \<Rightarrow> bool \<Rightarrow> string \<Rightarrow> int option" where
  "digits_from acc after_underscore [] = (if after_underscore then None else Some acc)"
| "digits_from acc after_underscore (c # cs) =
     (if c = CHR ''_'' then (if after_underscore then None else digits_from acc True cs)
      else if (48 :: int) \<le> of_char c \<and> of_char c \<le> (57 :: int)
      then digits_from (10 * acc + (of_char c - 48)) False cs
      else None)"

definition python_int :: "string \<Rightarrow> int option" where
  "python_int s =
     (let t = strip s;
          negative = (t \<noteq> [] \<and> hd t = CHR ''-'');
          body = (if t \<noteq> [] \<and> (hd t = CHR ''-'' \<or> hd t = CHR ''+'') then tl t else t)
      in if length (filter (\<lambda>c. c \<noteq> CHR ''_'') body) > 4300 then None
         else map_option (\<lambda>n. if negative then - n else n) (digits_from 0 True body))"

section \<open>The configuration file\<close>

text \<open>
  The file is absent (\<open>None\<close>) or holds a text. \<^verbatim>\<open>open(path, "r")\<close> reads in
  universal-newlines mode: CR LF and a lone CR arrive as LF. \<^verbatim>\<open>readlines()\<close> cuts
  the text after every LF; a last line without terminator is kept as it is.
\<close>

fun universal_newlines :: "string \<Rightarrow> string" where
  "universal_newlines [] = []"
| "universal_newlines [c] = (if c = CHR 0x0D then [CHR 0x0A] else [c])"
| "universal_newlines (c # d # cs) =
     (if c = CHR 0x0D \<and> d = CHR 0x0A then CHR 0x0A # universal_newlines cs
      else if c = CHR 0x0D then CHR 0x0A # universal_newlines (d # cs)
      else c # universal_newlines (d # cs))"

fun lines_from :: "string \<Rightarrow> string \<Rightarrow> string list" where
  "lines_from cur [] = (if cur = [] then [] else [cur])"
| "lines_from cur (c # cs) =
     (if c = CHR 0x0A then (cur @ [c]) # lines_from [] cs else lines_from (cur @ [c]) cs)"

definition readlines :: "string \<Rightarrow> string list" where
  "readlines content = lines_from [] (universal_newlines content)"

text \<open>
  \<^verbatim>\<open>SSHManager._load_ssh_config_lines\<close>: a missing file is the empty document.
\<close>

definition load_ssh_config_lines :: "string option \<Rightarrow> string list" where
  "load_ssh_config_lines conf = (case conf of None \<Rightarrow> [] | Some content \<Rightarrow> readlines content)"

text \<open>
  \<^verbatim>\<open>SSHManager._write_ssh_config_lines\<close>: \<^verbatim>\<open>writelines\<close> stores the concatenation of
  the lines (on a system whose line separator is LF). A write that fails raises
  \<^verbatim>\<open>SSHError\<close>; the successful write is what is modelled.
\<close>

definition write_ssh_config_lines :: "string list \<Rightarrow> string option" where
  "write_ssh_config_lines lines = Some (concat lines)"

text \<open>\<^verbatim>\<open>SSHManager.update_host_config\<close> from file to file: load, compute, write.\<close>

definition update_host_config_file :: "string \<Rightarrow> string option \<Rightarrow> SSHConfig \<Rightarrow> string \<Rightarrow> string option" where
  "update_host_config_file mp conf ssh_config timestamp =
     write_ssh_config_lines (update_host_config mp (load_ssh_config_lines conf) ssh_config timestamp)"

text \<open>
  \<^verbatim>\<open>SSHManager.remove_host_config\<close> and \<^verbatim>\<open>SSHManager.prune_managed_blocks\<close> from
  file to file. Both return before writing when there is nothing to remove: the file is
  then left as it is, otherwise the new lines are written.
\<close>

definition remove_host_config_file :: "string \<Rightarrow> string option \<Rightarrow> string \<Rightarrow> string option \<times> bool" where
  "remove_host_config_file mp conf a =
     (let r = remove_host_config mp (load_ssh_config_lines conf) a
      in (if snd r then write_ssh_config_lines (fst r) else conf, snd r))"

definition prune_managed_blocks_file ::
  "string \<Rightarrow> string option \<Rightarrow> string set \<Rightarrow> string option \<times> nat" where
  "prune_managed_blocks_file mp conf valid_aliases =
     (let r = prune_managed_blocks mp (load_ssh_config_lines conf) valid_aliases
      in (if snd r \<noteq> 0 then write_ssh_config_lines (fst r) else conf, snd r))"

section \<open>Vocabulary of the properties\<close>

text \<open>
  Block ranges in document order: starting at or after \<open>cur\<close>, each range is not empty,
  the next begins at or after the end of the one before, and the last ends at or before \<open>n\<close>.
\<close>

fun blocks_ordered :: "nat \<Rightarrow> block list \<Rightarrow> nat \<Rightarrow> bool" where
  "blocks_ordered cur [] n = (cur \<le> n)"
| "blocks_ordered cur (b # bs) n =
     (cur \<le> start b \<and> start b < end_index b \<and> blocks_ordered (end_index b) bs n)"

text \<open>The descriptor that both parsers append for a block opened at line \<open>i\<close> with group \<open>g\<close>.\<close>

definition block_at :: "string \<Rightarrow> string list \<Rightarrow> nat \<Rightarrow> string \<Rightarrow> block" where
  "block_at mp lines i g =
     \<lparr>start = i,
      end_index = find_block_end lines (i + 1),
      hosts = py_split (strip g),
      managed = (find_marker mp lines i (find_block_end lines (i + 1)) \<noteq> None),
      marker_index =
        (case find_marker mp lines i (find_block_end lines (i + 1)) of
           None \<Rightarrow> - 1 | Some j \<Rightarrow> int j)\<rparr>"

text \<open>
  Line \<open>i\<close> lies in the range of a block of \<open>bs\<close> that satisfies \<open>P\<close>; and the lines
  of the document with an index from \<open>lo\<close> up to \<open>hi\<close> that lie in no such range, in
  document order.
\<close>

definition covered :: "(block \<Rightarrow> bool) \<Rightarrow> block list \<Rightarrow> nat \<Rightarrow> bool" where
  "covered P bs i \<longleftrightarrow> list_ex (\<lambda>b. P b \<and> start b \<le> i \<and> i < end_index b) bs"

definition kept :: "string list \<Rightarrow> (block \<Rightarrow> bool) \<Rightarrow> block list \<Rightarrow> nat \<Rightarrow> nat \<Rightarrow> string list" where
  "kept lines P bs lo hi = map ((!) lines) (filter (\<lambda>i. \<not> covered P bs i) [lo ..< hi])"

text \<open>
  The document cut along a list of blocks: the lines before the first block, the lines
  of the first block, the lines between the first and the second block, and so on, up to
  the lines after the last block.
\<close>

fun pieces :: "string list \<Rightarrow> nat \<Rightarrow> block list \<Rightarrow> string list list" where
  "pieces lines cur [] = [drop cur lines]"
| "pieces lines cur (b # bs) =
     py_slice lines cur (start b) # py_slice lines (start b) (end_index b)
     # pieces lines (end_index b) bs"

text \<open>
  A line opens a block that answers to the alias \<open>a\<close>; an alias that is one name: not
  empty and free of whitespace; a text without LF and CR; a line that ends with its only
  LF and holds no CR; a record and timestamp whose texts hold no line break.
\<close>

definition opens_for :: "string \<Rightarrow> string \<Rightarrow> bool" where
  "opens_for a l \<longleftrightarrow>
     (case match_host_line l of None \<Rightarrow> False | Some g \<Rightarrow> a \<in> set (py_split (strip g)))"

definition alias_token :: "string \<Rightarrow> bool" where
  "alias_token a \<longleftrightarrow> a \<noteq> [] \<and> (\<forall>c \<in> set a. \<not> is_space c)"

definition no_line_break :: "string \<Rightarrow> bool" where
  "no_line_break s \<longleftrightarrow> CHR 0x0A \<notin> set s \<and> CHR 0x0D \<notin> set s"

definition terminated_line :: "string \<Rightarrow> bool" where
  "terminated_line l \<longleftrightarrow> l \<noteq> [] \<and> last l = CHR 0x0A \<and> no_line_break (butlast l)"

definition record_one_line :: "SSHConfig \<Rightarrow> string \<Rightarrow> bool" where
  "record_one_line r ts \<longleftrightarrow>
     no_line_break (pod_id r) \<and> no_line_break (hostname r) \<and> no_line_break (user r)
     \<and> (case identity_file r of None \<Rightarrow> True | Some f \<Rightarrow> no_line_break f)
     \<and> no_line_break ts"

text \<open>
  All three required fields of a block are present and true in Python's sense; the index
  of the last body line of a block whose stripped text satisfies \<open>P\<close>; and a stripped
  line that reaches the marker branch of the scan and yields a pod id.
\<close>

definition complete_fields :: "host_fields \<Rightarrow> bool" where
  "complete_fields st \<longleftrightarrow>
     truthy_str (f_hostname st) \<and> truthy_int (f_port st) \<and> truthy_str (f_pod_id st)"

definition last_line :: "(string \<Rightarrow> bool) \<Rightarrow> string list \<Rightarrow> block \<Rightarrow> nat option" where
  "last_line P lines blk =
     List.find (\<lambda>i. P (strip (lines ! i))) (rev [start blk + 1 ..< end_index blk])"

definition sets_pod_id :: "string \<Rightarrow> string \<Rightarrow> bool" where
  "sets_pod_id mp l \<longleftrightarrow>
     \<not> startswith l ''HostName '' \<and> \<not> startswith l ''Port '' \<and> \<not> startswith l ''User ''
     \<and> \<not> startswith l ''IdentityFile '' \<and> startswith l mp \<and> py_in '' pod_id='' l
     \<and> search_pod_id l \<noteq> None"

text \<open>
  A last line without terminator: not empty and without line break. And a line list that
  \<^verbatim>\<open>readlines\<close> can return: every line but the last ends with its only LF, the last
  one does so or is a line without terminator.
\<close>

definition open_line :: "string \<Rightarrow> bool" where
  "open_line l \<longleftrightarrow> l \<noteq> [] \<and> no_line_break l"

definition loadable :: "string list \<Rightarrow> bool" where
  "loadable ls \<longleftrightarrow>
     (\<forall>l \<in> set (butlast ls). terminated_line l)
     \<and> (ls \<noteq> [] \<longrightarrow> terminated_line (last ls) \<or> open_line (last ls))"

section \<open>Properties of the parsers\<close>

lemma find_block_end_le: "i \<le> length lines \<Longrightarrow> find_block_end lines i \<le> length lines"
proof (induction lines i rule: find_block_end.induct)
  case (1 lines i)
  show ?case
  proof (cases "i < length lines \<and> \<not> match_host_prefix (lines ! i)")
    case True
    with 1 have "find_block_end lines (i + 1) \<le> length lines" by simp
    with True show ?thesis by (simp add: find_block_end_step)
  next
    case False
    then have "find_block_end lines i = i"
      using find_block_end_stop_host find_block_end_stop_eof by (cases "i < length lines") auto
    with 1(2) show ?thesis by simp
  qed
qed

lemma parse_blocks_from_eof: "length lines \<le> i \<Longrightarrow> parse_blocks_from mp lines i = []"
  by (subst parse_blocks_from.simps) simp

lemma parse_blocks_from_skip:
  "i < length lines \<Longrightarrow> match_host_line (lines ! i) = None \<Longrightarrow>
   parse_blocks_from mp lines i = parse_blocks_from mp lines (Suc i)"
  by (subst parse_blocks_from.simps) simp

lemma parse_blocks_from_open:
  "i < length lines \<Longrightarrow> match_host_line (lines ! i) = Some g \<Longrightarrow>
   parse_blocks_from mp lines i =
     block_at mp lines i g # parse_blocks_from mp lines (find_block_end lines (Suc i))"
  by (subst parse_blocks_from.simps) (simp add: block_at_def)

lemma blocks_ordered_weaken: "blocks_ordered cur bs n \<Longrightarrow> c \<le> cur \<Longrightarrow> blocks_ordered c bs n"
  by (cases bs) auto

lemma blocks_ordered_le: "blocks_ordered cur bs n \<Longrightarrow> cur \<le> n"
  by (induction bs arbitrary: cur) fastforce+

lemma parse_blocks_from_ordered:
  "i \<le> length lines \<Longrightarrow> blocks_ordered i (parse_blocks_from mp lines i) (length lines)"
proof (induction mp lines i rule: parse_blocks_from.induct)
  case (1 mp lines i)
  show ?case
  proof (cases "i < length lines")
    case False
    with 1(3) show ?thesis by (simp add: parse_blocks_from_eof)
  next
    case True
    show ?thesis
    proof (cases "match_host_line (lines ! i)")
      case None
      from True have "i + 1 \<le> length lines" by simp
      from 1(1)[OF True None this]
      have "blocks_ordered (i + 1) (parse_blocks_from mp lines (i + 1)) (length lines)" .
      then have "blocks_ordered i (parse_blocks_from mp lines (Suc i)) (length lines)"
        by (auto intro: blocks_ordered_weaken)
      with True None show ?thesis by (simp add: parse_blocks_from_skip)
    next
      case (Some g)
      let ?e = "find_block_end lines (i + 1)"
      have le: "?e \<le> length lines" using True by (intro find_block_end_le) simp
      have ge: "i + 1 \<le> ?e" by (rule find_block_end_ge)
      from 1(2)[OF True Some le]
      have "blocks_ordered ?e (parse_blocks_from mp lines ?e) (length lines)" .
      with ge True Some show ?thesis
        by (simp add: parse_blocks_from_open block_at_def)
    qed
  qed
qed

lemma parse_ssh_blocks_from_eq:
  "parse_ssh_blocks_from mp lines i = parse_blocks_from mp lines i"
proof (induction mp lines i rule: parse_blocks_from.induct)
  case (1 mp lines i)
  show ?case
  proof (cases "i < length lines")
    case False
    then show ?thesis
      by (subst parse_ssh_blocks_from.simps, subst parse_blocks_from.simps) simp
  next
    case True
    show ?thesis
    proof (cases "match_host_line (lines ! i)")
      case None
      from 1(1)[OF True None] True None show ?thesis
        by (subst parse_ssh_blocks_from.simps, subst parse_blocks_from.simps) simp
    next
      case (Some g)
      from 1(2)[OF True Some] True Some show ?thesis
        by (subst parse_ssh_blocks_from.simps, subst parse_blocks_from.simps) simp
    qed
  qed
qed

text \<open>
  C10. On every line sequence and for every marker prefix, the legacy parser
  \<^verbatim>\<open>parse_ssh_blocks\<close> of ssh_config.py and \<^verbatim>\<open>SSHManager._parse_ssh_blocks\<close> of
  core/ssh_manager.py return the same list of block descriptors, hence the same
  start, end, hosts, managed flag and marker index for every block.
\<close>

theorem parsers_agree:
  "parse_ssh_blocks mp lines = SSHManager_parse_ssh_blocks mp lines"
  by (simp add: parse_ssh_blocks_def SSHManager_parse_ssh_blocks_def parse_ssh_blocks_from_eq)

theorem parsers_agree_witness:
  "parse_ssh_blocks ''# rp:managed'' [''Host a b\<newline>'', ''    # rp:managed x\<newline>'', ''Host c'']
   = [\<lparr>start = 0, end_index = 2, hosts = [''a'', ''b''], managed = True, marker_index = 1\<rparr>,
      \<lparr>start = 2, end_index = 3, hosts = [''c''], managed = False, marker_index = - 1\<rparr>]"
proof -
  have "SSHManager_parse_ssh_blocks ''# rp:managed''
          [''Host a b\<newline>'', ''    # rp:managed x\<newline>'', ''Host c'']
        = [\<lparr>start = 0, end_index = 2, hosts = [''a'', ''b''], managed = True, marker_index = 1\<rparr>,
           \<lparr>start = 2, end_index = 3, hosts = [''c''], managed = False, marker_index = - 1\<rparr>]"
    by code_simp
  then show ?thesis
    using parsers_agree [of "''# rp:managed''" "[''Host a b\<newline>'', ''    # rp:managed x\<newline>'', ''Host c'']"]
    by simp
qed

text \<open>
  C7. The claim says that a \<^verbatim>\<open>Host\<close> line followed only by whitespace opens no block.
  On the line \<^verbatim>\<open>Host\<close>, two blanks, newline, the expression
  \<^verbatim>\<open>^\s*Host\s+(.+)$\<close> matches all the same: \<^verbatim>\<open>\s+\<close> gives back one blank, which
  \<^verbatim>\<open>(.+)\<close> takes as the group. Both parsers return a block whose host list is empty.
\<close>

theorem host_line_of_blanks_opens_block:
  "SSHManager_parse_ssh_blocks mp [''Host  \<newline>'']
     = [\<lparr>start = 0, end_index = 1, hosts = [], managed = False, marker_index = - 1\<rparr>]
   \<and> parse_ssh_blocks mp [''Host  \<newline>'']
     = [\<lparr>start = 0, end_index = 1, hosts = [], managed = False, marker_index = - 1\<rparr>]"
  by code_simp

section \<open>Deleting block ranges\<close>

lemma py_slice_nth: "b \<le> length xs \<Longrightarrow> py_slice xs a b = map ((!) xs) [a ..< b]"
  by (auto simp: py_slice_def list_eq_iff_nth_eq)

lemma drop_nth: "drop a xs = map ((!) xs) [a ..< length xs]"
  by (auto simp: list_eq_iff_nth_eq)

lemma covered_Nil [simp]: "covered P [] i = False"
  by (simp add: covered_def)

lemma covered_Cons:
  "covered P (b # bs) i \<longleftrightarrow> (P b \<and> start b \<le> i \<and> i < end_index b) \<or> covered P bs i"
  by (simp add: covered_def)

lemma not_covered_before:
  "blocks_ordered cur bs n \<Longrightarrow> i < cur \<Longrightarrow> \<not> covered P bs i"
proof (induction bs arbitrary: cur)
  case Nil
  then show ?case by simp
next
  case (Cons b bs)
  from Cons.prems have "i < end_index b" "blocks_ordered (end_index b) bs n" "i < start b" by auto
  with Cons.IH show ?case by (auto simp: covered_Cons)
qed

lemma upt_split3:
  "a \<le> b \<Longrightarrow> b \<le> c \<Longrightarrow> c \<le> d \<Longrightarrow> [a ..< d] = [a ..< b] @ [b ..< c] @ [c ..< d]"
  by (metis le_trans upt_add_eq_append le_Suc_ex)

lemma delete_ranges_filter:
  "blocks_ordered cur bs (length lines) \<Longrightarrow>
   delete_ranges lines cur (map (\<lambda>b. (start b, end_index b)) (filter P bs))
     = kept lines P bs cur (length lines)"
  unfolding kept_def
proof (induction bs arbitrary: cur)
  case Nil
  then show ?case by (simp add: drop_nth)
next
  case (Cons b bs)
  let ?s = "start b" and ?e = "end_index b" and ?n = "length lines"
  from Cons.prems have ord: "cur \<le> ?s" "?s < ?e" "blocks_ordered ?e bs ?n" by auto
  from ord(3) have en: "?e \<le> ?n" by (rule blocks_ordered_le)
  have IH: "delete_ranges lines ?e (map (\<lambda>b. (start b, end_index b)) (filter P bs))
     = map ((!) lines) (filter (\<lambda>i. \<not> covered P bs i) [?e ..< ?n])"
    using Cons.IH[OF ord(3)] .
  have split: "[cur ..< ?n] = [cur ..< ?s] @ [?s ..< ?e] @ [?e ..< ?n]"
    using ord en by (intro upt_split3) auto
  have before: "filter (\<lambda>i. \<not> covered P (b # bs) i) [cur ..< ?s] = [cur ..< ?s]"
    using not_covered_before[OF ord(3), of _ P] ord by (auto simp: covered_Cons filter_id_conv)
  have after: "filter (\<lambda>i. \<not> covered P (b # bs) i) [?e ..< ?n]
      = filter (\<lambda>i. \<not> covered P bs i) [?e ..< ?n]"
    by (rule filter_cong) (auto simp: covered_Cons)
  show ?case
  proof (cases "P b")
    case True
    have mid: "filter (\<lambda>i. \<not> covered P (b # bs) i) [?s ..< ?e] = []"
      using True by (auto simp: covered_Cons filter_empty_conv)
    have "py_slice lines cur ?s = map ((!) lines) [cur ..< ?s]"
      using ord en by (intro py_slice_nth) auto
    with True IH show ?thesis
      by (simp add: split before mid after)
  next
    case False
    have mid: "filter (\<lambda>i. \<not> covered P (b # bs) i) [?s ..< ?e] = [?s ..< ?e]"
      using False not_covered_before[OF ord(3), of _ P] by (auto simp: covered_Cons filter_id_conv)
    have w: "blocks_ordered cur bs ?n"
      using ord by (auto intro: blocks_ordered_weaken)
    have same: "filter (\<lambda>i. \<not> covered P (b # bs) i) [cur ..< ?n]
      = filter (\<lambda>i. \<not> covered P bs i) [cur ..< ?n]"
      using False by (intro filter_cong) (auto simp: covered_Cons)
    from False Cons.IH[OF w] show ?thesis by (simp add: same)
  qed
qed

lemma parse_ordered:
  "blocks_ordered 0 (SSHManager_parse_ssh_blocks mp lines) (length lines)"
  by (simp add: SSHManager_parse_ssh_blocks_def parse_blocks_from_ordered)

lemma kept_none:
  "\<not> list_ex P bs \<Longrightarrow> kept lines P bs 0 (length lines) = lines"
proof -
  assume "\<not> list_ex P bs"
  then have "\<And>i. \<not> covered P bs i" by (auto simp: covered_def list_ex_iff)
  then show ?thesis by (simp add: kept_def map_nth)
qed

lemma filter_Nil_list_ex: "filter P bs = [] \<longleftrightarrow> \<not> list_ex P bs"
  by (auto simp: filter_empty_conv list_ex_iff)

lemma blocks_ordered_mem:
  "blocks_ordered cur bs n \<Longrightarrow> b \<in> set bs \<Longrightarrow>
   cur \<le> start b \<and> start b < end_index b \<and> end_index b \<le> n"
proof (induction bs arbitrary: cur)
  case Nil
  then show ?case by simp
next
  case (Cons x bs)
  show ?case
  proof (cases "b = x")
    case True
    with Cons.prems blocks_ordered_le[of "end_index x" bs n] show ?thesis by auto
  next
    case False
    with Cons.prems have "b \<in> set bs" "blocks_ordered (end_index x) bs n" "cur \<le> end_index x"
      by auto
    with Cons.IH[of "end_index x"] show ?thesis by auto
  qed
qed

lemma not_covered_inside:
  "blocks_ordered cur bs n \<Longrightarrow> b \<in> set bs \<Longrightarrow> \<not> P b \<Longrightarrow>
   start b \<le> i \<Longrightarrow> i < end_index b \<Longrightarrow> \<not> covered P bs i"
proof (induction bs arbitrary: cur)
  case Nil
  then show ?case by simp
next
  case (Cons x bs)
  from Cons.prems(1) have ord: "blocks_ordered (end_index x) bs n" by simp
  show ?case
  proof (cases "b = x")
    case True
    with Cons.prems not_covered_before[OF ord, of i P] show ?thesis
      by (auto simp: covered_Cons)
  next
    case False
    with Cons.prems have mem: "b \<in> set bs" by auto
    from blocks_ordered_mem[OF ord mem] Cons.prems have "end_index x \<le> i" by simp
    moreover from Cons.IH[OF ord mem] Cons.prems(3-5) have "\<not> covered P bs i" by blast
    ultimately show ?thesis by (auto simp: covered_Cons)
  qed
qed

lemma kept_retains_block:
  assumes ord: "blocks_ordered 0 bs (length lines)" and mem: "b \<in> set bs" and np: "\<not> P b"
  shows "kept lines P bs 0 (length lines)
     = kept lines P bs 0 (start b) @ py_slice lines (start b) (end_index b)
       @ kept lines P bs (end_index b) (length lines)"
proof -
  from blocks_ordered_mem[OF ord mem]
  have b: "start b < end_index b" "end_index b \<le> length lines" by auto
  have split: "[0 ..< length lines] = [0 ..< start b] @ [start b ..< end_index b] @ [end_index b ..< length lines]"
    using b by (intro upt_split3) auto
  have mid: "filter (\<lambda>i. \<not> covered P bs i) [start b ..< end_index b] = [start b ..< end_index b]"
    using not_covered_inside[OF ord mem, of P] np by (auto simp: filter_id_conv)
  have "py_slice lines (start b) (end_index b) = map ((!) lines) [start b ..< end_index b]"
    using b by (intro py_slice_nth) auto
  then show ?thesis
    unfolding kept_def by (simp add: split mid)
qed

section \<open>Remove and prune\<close>

lemma list_ex_inter: "list_ex (\<lambda>h. h \<in> V) hs \<longleftrightarrow> set hs \<inter> V \<noteq> {}"
  by (auto simp: list_ex_iff)

lemma parse_Nil: "SSHManager_parse_ssh_blocks mp [] = []"
  by (simp add: SSHManager_parse_ssh_blocks_def parse_blocks_from_eof)

lemma remove_host_config_eq:
  "remove_host_config mp lines a =
     (kept lines (\<lambda>b. managed b \<and> a \<in> set (hosts b)) (SSHManager_parse_ssh_blocks mp lines) 0 (length lines),
      list_ex (\<lambda>b. managed b \<and> a \<in> set (hosts b)) (SSHManager_parse_ssh_blocks mp lines))"
proof -
  let ?P = "\<lambda>b. managed b \<and> a \<in> set (hosts b)"
  let ?bs = "SSHManager_parse_ssh_blocks mp lines"
  have del: "delete_ranges lines 0 (map (\<lambda>b. (start b, end_index b)) (filter ?P ?bs))
      = kept lines ?P ?bs 0 (length lines)"
    using delete_ranges_filter[OF parse_ordered, where P = "?P"] .
  show ?thesis
  proof (cases "lines = [] \<or> \<not> list_ex ?P ?bs")
    case True
    then have no: "\<not> list_ex ?P ?bs" using parse_Nil by auto
    then have "remove_host_config mp lines a = (lines, False)"
      by (simp add: remove_host_config_def Let_def filter_Nil_list_ex)
    with no show ?thesis by (simp add: kept_none)
  next
    case False
    then show ?thesis
      by (simp add: remove_host_config_def Let_def filter_Nil_list_ex del)
  qed
qed

lemma prune_managed_blocks_eq:
  "prune_managed_blocks mp lines V =
     (kept lines (\<lambda>b. managed b \<and> set (hosts b) \<inter> V = {}) (SSHManager_parse_ssh_blocks mp lines) 0 (length lines),
      length (filter (\<lambda>b. managed b \<and> set (hosts b) \<inter> V = {}) (SSHManager_parse_ssh_blocks mp lines)))"
proof -
  let ?P = "\<lambda>b. managed b \<and> set (hosts b) \<inter> V = {}"
  let ?bs = "SSHManager_parse_ssh_blocks mp lines"
  have del: "delete_ranges lines 0 (map (\<lambda>b. (start b, end_index b)) (filter ?P ?bs))
      = kept lines ?P ?bs 0 (length lines)"
    using delete_ranges_filter[OF parse_ordered, where P = "?P"] .
  show ?thesis
  proof (cases "lines = [] \<or> \<not> list_ex ?P ?bs")
    case True
    then have no: "\<not> list_ex ?P ?bs" using parse_Nil by auto
    then have f: "filter ?P ?bs = []" by (simp add: filter_Nil_list_ex)
    then have "prune_managed_blocks mp lines V = (lines, 0)"
      by (simp add: prune_managed_blocks_def Let_def list_ex_inter)
    with no f show ?thesis by (simp add: kept_none)
  next
    case False
    then have "filter ?P ?bs \<noteq> []" by (simp add: filter_Nil_list_ex)
    with False show ?thesis
      by (simp add: prune_managed_blocks_def Let_def list_ex_inter del)
  qed
qed

text \<open>
  C2. For every document and alias, \<^verbatim>\<open>remove_host_config\<close> writes the lines that lie
  in no block that is managed and has the alias among its hosts, in their order: these
  blocks are deleted whole and nothing else is. It returns whether such a block exists.
  When there is none, the document is unchanged and the result is \<open>False\<close>. The lines
  of every unmanaged block, whatever its hosts, stand in the result as they were, after
  the surviving lines that preceded them and before those that followed.
\<close>

theorem remove_host_config_deletes_managed_alias_blocks:
  "fst (remove_host_config mp lines a)
     = kept lines (\<lambda>b. managed b \<and> a \<in> set (hosts b))
         (SSHManager_parse_ssh_blocks mp lines) 0 (length lines)
   \<and> snd (remove_host_config mp lines a)
     = (\<exists>b \<in> set (SSHManager_parse_ssh_blocks mp lines). managed b \<and> a \<in> set (hosts b))
   \<and> ((\<forall>b \<in> set (SSHManager_parse_ssh_blocks mp lines). \<not> (managed b \<and> a \<in> set (hosts b)))
        \<longrightarrow> remove_host_config mp lines a = (lines, False))
   \<and> (\<forall>b \<in> set (SSHManager_parse_ssh_blocks mp lines). \<not> managed b \<longrightarrow>
        fst (remove_host_config mp lines a)
          = kept lines (\<lambda>b. managed b \<and> a \<in> set (hosts b))
              (SSHManager_parse_ssh_blocks mp lines) 0 (start b)
            @ py_slice lines (start b) (end_index b)
            @ kept lines (\<lambda>b. managed b \<and> a \<in> set (hosts b))
                (SSHManager_parse_ssh_blocks mp lines) (end_index b) (length lines))"
proof -
  let ?P = "\<lambda>b. managed b \<and> a \<in> set (hosts b)"
  let ?bs = "SSHManager_parse_ssh_blocks mp lines"
  have 1: "fst (remove_host_config mp lines a) = kept lines ?P ?bs 0 (length lines)"
    by (simp add: remove_host_config_eq)
  have 2: "snd (remove_host_config mp lines a) = (\<exists>b \<in> set ?bs. ?P b)"
    by (simp add: remove_host_config_eq list_ex_iff)
  have 3: "(\<forall>b \<in> set ?bs. \<not> ?P b) \<longrightarrow> remove_host_config mp lines a = (lines, False)"
  proof
    assume "\<forall>b \<in> set ?bs. \<not> ?P b"
    then have "\<not> list_ex ?P ?bs" by (simp add: list_ex_iff)
    then show "remove_host_config mp lines a = (lines, False)"
      by (simp add: remove_host_config_eq kept_none)
  qed
  have 4: "\<forall>b \<in> set ?bs. \<not> managed b \<longrightarrow>
        fst (remove_host_config mp lines a)
          = kept lines ?P ?bs 0 (start b) @ py_slice lines (start b) (end_index b)
            @ kept lines ?P ?bs (end_index b) (length lines)"
  proof (intro ballI impI)
    fix b assume "b \<in> set ?bs" "\<not> managed b"
    then show "fst (remove_host_config mp lines a)
          = kept lines ?P ?bs 0 (start b) @ py_slice lines (start b) (end_index b)
            @ kept lines ?P ?bs (end_index b) (length lines)"
      using kept_retains_block[OF parse_ordered, where P = "?P"] by (simp add: 1)
  qed
  from 1 2 3 4 show ?thesis by blast
qed


theorem remove_host_config_deletes_managed_alias_blocks_witness:
  "remove_host_config ''# rp:managed'' [''Host y\<newline>'', ''    HostName u\<newline>''] ''y''
     = ([''Host y\<newline>'', ''    HostName u\<newline>''], False)
   \<and> kept [''Host x\<newline>'', ''    HostName u\<newline>'', ''Host a b\<newline>'', ''    # rp:managed alias=a\<newline>'']
         (\<lambda>b. managed b \<and> ''b'' \<in> set (hosts b))
         (SSHManager_parse_ssh_blocks ''# rp:managed''
            [''Host x\<newline>'', ''    HostName u\<newline>'', ''Host a b\<newline>'', ''    # rp:managed alias=a\<newline>''])
         0 (length [''Host x\<newline>'', ''    HostName u\<newline>'', ''Host a b\<newline>'', ''    # rp:managed alias=a\<newline>''])
     = [''Host x\<newline>'', ''    HostName u\<newline>'']"
proof -
  let ?L = "[''Host y\<newline>'', ''    HostName u\<newline>'']"
  let ?M = "[''Host x\<newline>'', ''    HostName u\<newline>'', ''Host a b\<newline>'', ''    # rp:managed alias=a\<newline>'']"
  have h: "\<forall>b \<in> set (SSHManager_parse_ssh_blocks ''# rp:managed'' ?L).
             \<not> (managed b \<and> ''y'' \<in> set (hosts b))"
    by code_simp
  have e: "fst (remove_host_config ''# rp:managed'' ?M ''b'') = [''Host x\<newline>'', ''    HostName u\<newline>'']"
    by code_simp
  from remove_host_config_deletes_managed_alias_blocks [of "''# rp:managed''" ?L "''y''"] h
  have "remove_host_config ''# rp:managed'' ?L ''y'' = (?L, False)" by blast
  moreover have "fst (remove_host_config ''# rp:managed'' ?M ''b'')
      = kept ?M (\<lambda>b. managed b \<and> ''b'' \<in> set (hosts b))
          (SSHManager_parse_ssh_blocks ''# rp:managed'' ?M) 0 (length ?M)"
    using remove_host_config_deletes_managed_alias_blocks [of "''# rp:managed''" ?M "''b''"]
    by (rule conjunct1)
  ultimately show ?thesis using e by metis
qed

text \<open>
  C3. For every document and every set of valid aliases, \<^verbatim>\<open>prune_managed_blocks\<close>
  writes the lines that lie in no managed block whose hosts are disjoint from the set, and
  returns the number of these blocks. A block that is unmanaged, or has a host in the
  set, keeps all its lines, in place between the surviving lines around it.
\<close>

theorem prune_managed_blocks_deletes_invalid_managed_blocks:
  "fst (prune_managed_blocks mp lines valid_aliases)
     = kept lines (\<lambda>b. managed b \<and> set (hosts b) \<inter> valid_aliases = {})
         (SSHManager_parse_ssh_blocks mp lines) 0 (length lines)
   \<and> snd (prune_managed_blocks mp lines valid_aliases)
     = length (filter (\<lambda>b. managed b \<and> set (hosts b) \<inter> valid_aliases = {})
         (SSHManager_parse_ssh_blocks mp lines))
   \<and> (\<forall>b \<in> set (SSHManager_parse_ssh_blocks mp lines).
        \<not> managed b \<or> set (hosts b) \<inter> valid_aliases \<noteq> {} \<longrightarrow>
        fst (prune_managed_blocks mp lines valid_aliases)
          = kept lines (\<lambda>b. managed b \<and> set (hosts b) \<inter> valid_aliases = {})
              (SSHManager_parse_ssh_blocks mp lines) 0 (start b)
            @ py_slice lines (start b) (end_index b)
            @ kept lines (\<lambda>b. managed b \<and> set (hosts b) \<inter> valid_aliases = {})
                (SSHManager_parse_ssh_blocks mp lines) (end_index b) (length lines))"
proof -
  let ?P = "\<lambda>b. managed b \<and> set (hosts b) \<inter> valid_aliases = {}"
  let ?bs = "SSHManager_parse_ssh_blocks mp lines"
  have 1: "fst (prune_managed_blocks mp lines valid_aliases) = kept lines ?P ?bs 0 (length lines)"
    by (simp add: prune_managed_blocks_eq)
  have 2: "snd (prune_managed_blocks mp lines valid_aliases) = length (filter ?P ?bs)"
    by (simp add: prune_managed_blocks_eq)
  have 3: "\<forall>b \<in> set ?bs. \<not> managed b \<or> set (hosts b) \<inter> valid_aliases \<noteq> {} \<longrightarrow>
        fst (prune_managed_blocks mp lines valid_aliases)
          = kept lines ?P ?bs 0 (start b) @ py_slice lines (start b) (end_index b)
            @ kept lines ?P ?bs (end_index b) (length lines)"
  proof (intro ballI impI)
    fix b assume "b \<in> set ?bs" "\<not> managed b \<or> set (hosts b) \<inter> valid_aliases \<noteq> {}"
    then show "fst (prune_managed_blocks mp lines valid_aliases)
          = kept lines ?P ?bs 0 (start b) @ py_slice lines (start b) (end_index b)
            @ kept lines ?P ?bs (end_index b) (length lines)"
      using kept_retains_block[OF parse_ordered, where P = "?P"] by (simp add: 1)
  qed
  from 1 2 3 show ?thesis by blast
qed

theorem prune_managed_blocks_deletes_invalid_managed_blocks_witness:
  "prune_managed_blocks ''# rp:managed''
     [''Host p1\<newline>'', ''    # rp:managed a\<newline>'', ''Host p2\<newline>'', ''    # rp:managed b\<newline>'',
      ''Host p3\<newline>'', ''    # rp:managed c\<newline>''] {''p1''}
   = ([''Host p1\<newline>'', ''    # rp:managed a\<newline>''], 2)"
proof -
  let ?L = "[''Host p1\<newline>'', ''    # rp:managed a\<newline>'', ''Host p2\<newline>'', ''    # rp:managed b\<newline>'',
      ''Host p3\<newline>'', ''    # rp:managed c\<newline>'']"
  let ?b = "\<lparr>start = 0, end_index = 2, hosts = [''p1''], managed = True, marker_index = 1\<rparr>"
  let ?P = "\<lambda>b. managed b \<and> set (hosts b) \<inter> {''p1''} = {}"
  let ?bs = "SSHManager_parse_ssh_blocks ''# rp:managed'' ?L"
  note t = prune_managed_blocks_deletes_invalid_managed_blocks [of "''# rp:managed''" ?L "{''p1''}"]
  have mem: "?b \<in> set ?bs" by code_simp
  have v: "\<not> managed ?b \<or> set (hosts ?b) \<inter> {''p1''} \<noteq> {}" by simp
  from t mem v have "fst (prune_managed_blocks ''# rp:managed'' ?L {''p1''})
      = kept ?L ?P ?bs 0 (start ?b) @ py_slice ?L (start ?b) (end_index ?b)
        @ kept ?L ?P ?bs (end_index ?b) (length ?L)"
    by blast
  moreover have "kept ?L ?P ?bs 0 (start ?b) = []" by (simp add: kept_def)
  moreover have "py_slice ?L (start ?b) (end_index ?b) = [''Host p1\<newline>'', ''    # rp:managed a\<newline>'']"
    by (simp add: py_slice_def)
  moreover have "kept ?L ?P ?bs (end_index ?b) (length ?L) = []" by code_simp
  moreover from t have "snd (prune_managed_blocks ''# rp:managed'' ?L {''p1''}) = length (filter ?P ?bs)"
    by blast
  moreover have "length (filter ?P ?bs) = 2" by code_simp
  ultimately show ?thesis by (simp add: prod_eq_iff)
qed

section \<open>Order, disjointness and partition\<close>

lemma concat_pieces:
  "blocks_ordered cur bs (length lines) \<Longrightarrow> concat (pieces lines cur bs) = drop cur lines"
proof (induction bs arbitrary: cur)
  case Nil
  then show ?case by simp
next
  case (Cons b bs)
  from Cons.prems have ord: "cur \<le> start b" "start b < end_index b"
    "blocks_ordered (end_index b) bs (length lines)" by auto
  from ord(3) have en: "end_index b \<le> length lines" by (rule blocks_ordered_le)
  have "py_slice lines cur (start b) = map ((!) lines) [cur ..< start b]"
    using ord en by (intro py_slice_nth) auto
  moreover have "py_slice lines (start b) (end_index b) = map ((!) lines) [start b ..< end_index b]"
    using en by (intro py_slice_nth) auto
  moreover have "concat (pieces lines (end_index b) bs) = map ((!) lines) [end_index b ..< length lines]"
    using Cons.IH[OF ord(3)] by (simp add: drop_nth[symmetric])
  moreover have "[cur ..< length lines] = [cur ..< start b] @ [start b ..< end_index b] @ [end_index b ..< length lines]"
    using ord en by (intro upt_split3) auto
  ultimately show ?case by (simp add: drop_nth[of cur lines])
qed

lemma blocks_ordered_nth:
  "blocks_ordered cur bs n \<Longrightarrow> j < k \<Longrightarrow> k < length bs \<Longrightarrow> end_index (bs ! j) \<le> start (bs ! k)"
proof (induction bs arbitrary: cur j k)
  case Nil
  then show ?case by simp
next
  case (Cons b bs)
  from Cons.prems(1) have ord: "blocks_ordered (end_index b) bs n" by simp
  from Cons.prems obtain k' where k: "k = Suc k'" "k' < length bs" by (cases k) auto
  show ?case
  proof (cases j)
    case 0
    from k have "bs ! k' \<in> set bs" by simp
    from blocks_ordered_mem[OF ord this] 0 k show ?thesis by simp
  next
    case (Suc j')
    with Cons.prems k have "j' < k'" by simp
    from Cons.IH[OF ord this k(2)] Suc k show ?thesis by simp
  qed
qed

lemma parse_legacy_eq: "parse_ssh_blocks mp lines = SSHManager_parse_ssh_blocks mp lines"
  by (simp add: parse_ssh_blocks_def SSHManager_parse_ssh_blocks_def parse_ssh_blocks_from_eq)

lemma ordered_partition:
  assumes "blocks_ordered 0 bs (length lines)"
  shows "(\<forall>k < length bs. start (bs ! k) < end_index (bs ! k) \<and> end_index (bs ! k) \<le> length lines)
   \<and> (\<forall>j k. j < k \<and> k < length bs \<longrightarrow> end_index (bs ! j) \<le> start (bs ! k))
   \<and> concat (pieces lines 0 bs) = lines"
proof -
  have "\<forall>k < length bs. start (bs ! k) < end_index (bs ! k) \<and> end_index (bs ! k) \<le> length lines"
    using blocks_ordered_mem[OF assms] by (auto simp: )
  moreover have "\<forall>j k. j < k \<and> k < length bs \<longrightarrow> end_index (bs ! j) \<le> start (bs ! k)"
    using blocks_ordered_nth[OF assms] by blast
  moreover have "concat (pieces lines 0 bs) = lines"
    using concat_pieces[OF assms] by simp
  ultimately show ?thesis by blast
qed

text \<open>
  C9. For every line sequence, the blocks returned by either parser are not empty and lie
  inside the document; a block that comes earlier in the list ends at or before the start
  of every later one, so the blocks are in document order and pairwise disjoint; and the
  pieces of the document cut along the blocks (lines outside the blocks and block ranges,
  alternating) concatenate to the document itself.
\<close>

theorem parse_blocks_ordered_disjoint_partition:
  "(\<forall>k < length (SSHManager_parse_ssh_blocks mp lines).
      start (SSHManager_parse_ssh_blocks mp lines ! k) < end_index (SSHManager_parse_ssh_blocks mp lines ! k)
      \<and> end_index (SSHManager_parse_ssh_blocks mp lines ! k) \<le> length lines)
   \<and> (\<forall>j k. j < k \<and> k < length (SSHManager_parse_ssh_blocks mp lines) \<longrightarrow>
         end_index (SSHManager_parse_ssh_blocks mp lines ! j)
           \<le> start (SSHManager_parse_ssh_blocks mp lines ! k))
   \<and> concat (pieces lines 0 (SSHManager_parse_ssh_blocks mp lines)) = lines
   \<and> (\<forall>k < length (parse_ssh_blocks mp lines).
      start (parse_ssh_blocks mp lines ! k) < end_index (parse_ssh_blocks mp lines ! k)
      \<and> end_index (parse_ssh_blocks mp lines ! k) \<le> length lines)
   \<and> (\<forall>j k. j < k \<and> k < length (parse_ssh_blocks mp lines) \<longrightarrow>
         end_index (parse_ssh_blocks mp lines ! j) \<le> start (parse_ssh_blocks mp lines ! k))
   \<and> concat (pieces lines 0 (parse_ssh_blocks mp lines)) = lines"
  using ordered_partition[OF parse_ordered, of mp lines]
  unfolding parse_legacy_eq by blast

theorem parse_blocks_ordered_disjoint_partition_witness:
  "pieces [''# top\<newline>'', ''Host a\<newline>'', ''    Port 1\<newline>'', ''Host\<newline>'', ''# gap\<newline>'', ''Host b'']
      0 (SSHManager_parse_ssh_blocks ''# rp:managed''
          [''# top\<newline>'', ''Host a\<newline>'', ''    Port 1\<newline>'', ''Host\<newline>'', ''# gap\<newline>'', ''Host b''])
     = [[''# top\<newline>''], [''Host a\<newline>'', ''    Port 1\<newline>''], [''Host\<newline>'', ''# gap\<newline>''], [''Host b''], []]
   \<and> concat [[''# top\<newline>''], [''Host a\<newline>'', ''    Port 1\<newline>''], [''Host\<newline>'', ''# gap\<newline>''], [''Host b''], []]
     = [''# top\<newline>'', ''Host a\<newline>'', ''    Port 1\<newline>'', ''Host\<newline>'', ''# gap\<newline>'', ''Host b'']"
proof -
  let ?L = "[''# top\<newline>'', ''Host a\<newline>'', ''    Port 1\<newline>'', ''Host\<newline>'', ''# gap\<newline>'', ''Host b'']"
  have e: "pieces ?L 0 (SSHManager_parse_ssh_blocks ''# rp:managed'' ?L)
     = [[''# top\<newline>''], [''Host a\<newline>'', ''    Port 1\<newline>''], [''Host\<newline>'', ''# gap\<newline>''], [''Host b''], []]"
    by code_simp
  from parse_blocks_ordered_disjoint_partition [of "''# rp:managed''" ?L]
  have "concat (pieces ?L 0 (SSHManager_parse_ssh_blocks ''# rp:managed'' ?L)) = ?L" by blast
  with e show ?thesis by metis
qed

section \<open>Create or update\<close>

lemma find_first:
  "xs = pre @ b # post \<Longrightarrow> \<forall>p \<in> set pre. \<not> P p \<Longrightarrow> P b \<Longrightarrow> List.find P xs = Some b"
  by (induction pre arbitrary: xs) auto

lemma find_none: "\<forall>x \<in> set xs. \<not> P x \<Longrightarrow> List.find P xs = None"
  by (simp add: find_None_iff)

lemma mem_dropWhile: "x \<in> set xs \<Longrightarrow> \<not> P x \<Longrightarrow> x \<in> set (dropWhile P xs)"
  by (induction xs) auto

lemma strip_Nil_iff: "strip s = [] \<longleftrightarrow> (\<forall>c \<in> set s. is_space c)"
proof
  assume e: "strip s = []"
  show "\<forall>c \<in> set s. is_space c"
  proof (rule ccontr)
    assume "\<not> (\<forall>c \<in> set s. is_space c)"
    then obtain c where c: "c \<in> set s" "\<not> is_space c" by auto
    then have "c \<in> set (dropWhile is_space (rev s))" by (intro mem_dropWhile) auto
    then have "c \<in> set (rstrip s)" by (simp add: rstrip_def)
    with c(2) have "c \<in> set (strip s)" unfolding strip_def lstrip_def by (intro mem_dropWhile)
    with e show False by simp
  qed
next
  assume a: "\<forall>c \<in> set s. is_space c"
  then have "rstrip s = []" by (simp add: rstrip_def dropWhile_eq_Nil_conv)
  then show "strip s = []" by (simp add: strip_def lstrip_def)
qed

lemma to_ssh_block_hd: "hd (to_ssh_block r ts) = ''Host '' @ host_alias r @ ''\<newline>''"
  by (simp add: to_ssh_block_def)

lemma H_not_space: "\<not> is_space (CHR ''H'')"
  by (simp add: is_space_def)

text \<open>
  C1. For every document and host record: if the blocks of the document are
  \<open>pre @ b # post\<close>, no block of \<open>pre\<close> has the record's alias among its hosts and
  \<open>b\<close> has it (so \<open>b\<close> is the first such block, managed or not), then
  \<^verbatim>\<open>update_host_config\<close> writes the lines before \<open>b\<close>, the freshly built block, and
  the lines from the end of \<open>b\<close> on: the whole range of \<open>b\<close>, which is not empty,
  is replaced. If no block has the alias among its hosts, it writes the document, at most
  one separator line, and the fresh block at the end.
\<close>

theorem update_host_config_replaces_first_or_appends:
  "(\<forall>pre b post.
      SSHManager_parse_ssh_blocks mp lines = pre @ b # post
      \<and> (\<forall>p \<in> set pre. host_alias r \<notin> set (hosts p)) \<and> host_alias r \<in> set (hosts b) \<longrightarrow>
      start b < end_index b \<and> end_index b \<le> length lines
      \<and> update_host_config mp lines r ts
          = take (start b) lines @ to_ssh_block r ts @ drop (end_index b) lines)
   \<and> ((\<forall>b \<in> set (SSHManager_parse_ssh_blocks mp lines). host_alias r \<notin> set (hosts b)) \<longrightarrow>
      (\<exists>sep. (sep = [] \<or> sep = [''\<newline>''])
         \<and> update_host_config mp lines r ts = lines @ sep @ to_ssh_block r ts))"
proof (intro conjI allI impI)
  fix pre b post
  assume h: "SSHManager_parse_ssh_blocks mp lines = pre @ b # post
      \<and> (\<forall>p \<in> set pre. host_alias r \<notin> set (hosts p)) \<and> host_alias r \<in> set (hosts b)"
  then have mem: "b \<in> set (SSHManager_parse_ssh_blocks mp lines)" by simp
  from blocks_ordered_mem[OF parse_ordered mem]
  show "start b < end_index b" and "end_index b \<le> length lines" by auto
  from h have "List.find (\<lambda>block. host_alias r \<in> set (hosts block)) (SSHManager_parse_ssh_blocks mp lines) = Some b"
    by (intro find_first[where pre = pre and post = post]) auto
  then show "update_host_config mp lines r ts
          = take (start b) lines @ to_ssh_block r ts @ drop (end_index b) lines"
    by (simp add: update_host_config_def Let_def py_slice_def)
next
  assume "\<forall>b \<in> set (SSHManager_parse_ssh_blocks mp lines). host_alias r \<notin> set (hosts b)"
  then have "List.find (\<lambda>block. host_alias r \<in> set (hosts block)) (SSHManager_parse_ssh_blocks mp lines) = None"
    by (intro find_none) auto
  then have "update_host_config mp lines r ts
     = lines @ (if lines \<noteq> [] \<and> strip (last lines) \<noteq> [] then [''\<newline>''] else []) @ to_ssh_block r ts"
    by (simp add: update_host_config_def Let_def)
  then show "\<exists>sep. (sep = [] \<or> sep = [''\<newline>''])
         \<and> update_host_config mp lines r ts = lines @ sep @ to_ssh_block r ts"
    by (cases "lines \<noteq> [] \<and> strip (last lines) \<noteq> []") auto
qed

text \<open>
  The append branch, on the line list handed to the writer. On the empty document the
  list is exactly the new block, whose first line is not blank. When no block has the
  alias: if the last line is not blank the element \<^verbatim>\<open>"\n"\<close> is appended before the new
  block, if it is blank nothing is.
\<close>

theorem update_host_config_append_separator:
  "update_host_config mp [] r ts = to_ssh_block r ts
   \<and> strip (hd (to_ssh_block r ts)) \<noteq> []
   \<and> ((\<forall>b \<in> set (SSHManager_parse_ssh_blocks mp lines). host_alias r \<notin> set (hosts b)) \<longrightarrow>
        (lines \<noteq> [] \<and> strip (last lines) \<noteq> [] \<longrightarrow>
           update_host_config mp lines r ts = lines @ [''\<newline>''] @ to_ssh_block r ts)
        \<and> (lines \<noteq> [] \<and> strip (last lines) = [] \<longrightarrow>
           update_host_config mp lines r ts = lines @ to_ssh_block r ts))"
proof (intro conjI impI)
  show "update_host_config mp [] r ts = to_ssh_block r ts"
    by (simp add: update_host_config_def Let_def parse_Nil)
  show "strip (hd (to_ssh_block r ts)) \<noteq> []"
    using H_not_space by (auto simp: strip_Nil_iff to_ssh_block_hd)
next
  assume "\<forall>b \<in> set (SSHManager_parse_ssh_blocks mp lines). host_alias r \<notin> set (hosts b)"
  then have f: "List.find (\<lambda>block. host_alias r \<in> set (hosts block)) (SSHManager_parse_ssh_blocks mp lines) = None"
    by (intro find_none) auto
  {
    assume "lines \<noteq> [] \<and> strip (last lines) \<noteq> []"
    with f show "update_host_config mp lines r ts = lines @ [''\<newline>''] @ to_ssh_block r ts"
      by (simp add: update_host_config_def Let_def)
  }
  {
    assume "lines \<noteq> [] \<and> strip (last lines) = []"
    with f show "update_host_config mp lines r ts = lines @ to_ssh_block r ts"
      by (simp add: update_host_config_def Let_def)
  }
qed


theorem update_host_config_replaces_first_or_appends_witness:
  "update_host_config ''# rp:managed'' [''Host x\<newline>'', ''    HostName old\<newline>'', ''Host z\<newline>'']
      \<lparr>host_alias = ''x'', pod_id = ''p1'', hostname = ''h'', port = 22, user = ''root'',
       identity_file = None\<rparr> ''T''
     = to_ssh_block \<lparr>host_alias = ''x'', pod_id = ''p1'', hostname = ''h'', port = 22, user = ''root'',
         identity_file = None\<rparr> ''T'' @ [''Host z\<newline>'']
   \<and> (\<exists>sep. (sep = [] \<or> sep = [''\<newline>''])
        \<and> update_host_config ''# rp:managed'' [''Host x\<newline>'', ''    HostName old\<newline>'', ''Host z\<newline>'']
             \<lparr>host_alias = ''q'', pod_id = ''p1'', hostname = ''h'', port = 22, user = ''root'',
              identity_file = None\<rparr> ''T''
           = [''Host x\<newline>'', ''    HostName old\<newline>'', ''Host z\<newline>''] @ sep
             @ to_ssh_block \<lparr>host_alias = ''q'', pod_id = ''p1'', hostname = ''h'', port = 22,
                 user = ''root'', identity_file = None\<rparr> ''T'')"
proof -
  let ?L = "[''Host x\<newline>'', ''    HostName old\<newline>'', ''Host z\<newline>'']"
  let ?rx = "\<lparr>host_alias = ''x'', pod_id = ''p1'', hostname = ''h'', port = 22, user = ''root'',
       identity_file = None\<rparr>"
  let ?rq = "\<lparr>host_alias = ''q'', pod_id = ''p1'', hostname = ''h'', port = 22, user = ''root'',
       identity_file = None\<rparr>"
  let ?b = "\<lparr>start = 0, end_index = 2, hosts = [''x''], managed = False, marker_index = - 1\<rparr>"
  let ?c = "\<lparr>start = 2, end_index = 3, hosts = [''z''], managed = False, marker_index = - 1\<rparr>"
  have p: "SSHManager_parse_ssh_blocks ''# rp:managed'' ?L = [] @ ?b # [?c]" by code_simp
  have hx: "SSHManager_parse_ssh_blocks ''# rp:managed'' ?L = [] @ ?b # [?c]
      \<and> (\<forall>p \<in> set []. host_alias ?rx \<notin> set (hosts p)) \<and> host_alias ?rx \<in> set (hosts ?b)"
    using p by simp
  have hq: "\<forall>b \<in> set (SSHManager_parse_ssh_blocks ''# rp:managed'' ?L). host_alias ?rq \<notin> set (hosts b)"
    unfolding p by simp
  from update_host_config_replaces_first_or_appends [of "''# rp:managed''" ?L ?rx "''T''"] hx
  have "update_host_config ''# rp:managed'' ?L ?rx ''T''
      = take (start ?b) ?L @ to_ssh_block ?rx ''T'' @ drop (end_index ?b) ?L"
    by blast
  then have 1: "update_host_config ''# rp:managed'' ?L ?rx ''T'' = to_ssh_block ?rx ''T'' @ [''Host z\<newline>'']"
    by simp
  from update_host_config_replaces_first_or_appends [of "''# rp:managed''" ?L ?rq "''T''"] hq
  have 2: "\<exists>sep. (sep = [] \<or> sep = [''\<newline>''])
        \<and> update_host_config ''# rp:managed'' ?L ?rq ''T'' = ?L @ sep @ to_ssh_block ?rq ''T''"
    by blast
  from 1 2 show ?thesis by blast
qed

theorem update_host_config_append_separator_witness:
  "update_host_config ''# rp:managed'' [''Host z\<newline>'']
      \<lparr>host_alias = ''q'', pod_id = ''p1'', hostname = ''h'', port = 22, user = ''root'',
       identity_file = None\<rparr> ''T''
     = [''Host z\<newline>''] @ [''\<newline>'']
       @ to_ssh_block \<lparr>host_alias = ''q'', pod_id = ''p1'', hostname = ''h'', port = 22, user = ''root'',
           identity_file = None\<rparr> ''T''
   \<and> update_host_config ''# rp:managed'' [''Host z\<newline>'', ''\<newline>'']
      \<lparr>host_alias = ''q'', pod_id = ''p1'', hostname = ''h'', port = 22, user = ''root'',
       identity_file = None\<rparr> ''T''
     = [''Host z\<newline>'', ''\<newline>'']
       @ to_ssh_block \<lparr>host_alias = ''q'', pod_id = ''p1'', hostname = ''h'', port = 22, user = ''root'',
           identity_file = None\<rparr> ''T''"
proof -
  let ?L1 = "[''Host z\<newline>'']"
  let ?L2 = "[''Host z\<newline>'', ''\<newline>'']"
  let ?rq = "\<lparr>host_alias = ''q'', pod_id = ''p1'', hostname = ''h'', port = 22, user = ''root'',
       identity_file = None\<rparr>"
  have h1: "\<forall>b \<in> set (SSHManager_parse_ssh_blocks ''# rp:managed'' ?L1). host_alias ?rq \<notin> set (hosts b)"
    by code_simp
  have h2: "\<forall>b \<in> set (SSHManager_parse_ssh_blocks ''# rp:managed'' ?L2). host_alias ?rq \<notin> set (hosts b)"
    by code_simp
  have n1: "?L1 \<noteq> [] \<and> strip (last ?L1) \<noteq> []" by code_simp
  have n2: "?L2 \<noteq> [] \<and> strip (last ?L2) = []" by code_simp
  from update_host_config_append_separator [of "''# rp:managed''" ?rq "''T''" ?L1] h1 n1
  have 1: "update_host_config ''# rp:managed'' ?L1 ?rq ''T'' = ?L1 @ [''\<newline>''] @ to_ssh_block ?rq ''T''"
    by blast
  from update_host_config_append_separator [of "''# rp:managed''" ?rq "''T''" ?L2] h2 n2
  have 2: "update_host_config ''# rp:managed'' ?L2 ?rq ''T'' = ?L2 @ to_ssh_block ?rq ''T''"
    by blast
  from 1 2 show ?thesis by blast
qed

text \<open>
  C6. The claim says that after a last line that is not blank exactly one blank separator
  line stands before the new block. For the file \<^verbatim>\<open>Host z\<close> without final newline the
  source appends the element \<^verbatim>\<open>"\n"\<close> (\<^verbatim>\<open># Add separator if needed\<close>), which only
  ends the last line: the written file, and the document read back from it, have no
  blank line between \<^verbatim>\<open>Host z\<close> and the new block.
\<close>

theorem unterminated_last_line_gets_no_blank_separator:
  "update_host_config ''# rp:managed'' (load_ssh_config_lines (Some ''Host z''))
      \<lparr>host_alias = ''q'', pod_id = ''p1'', hostname = ''h'', port = 22, user = ''root'',
       identity_file = None\<rparr> ''T''
     = [''Host z'', ''\<newline>'', ''Host q\<newline>'', ''    # rp:managed alias=q pod_id=p1 updated=T\<newline>'',
        ''    HostName h\<newline>'', ''    User root\<newline>'', ''    Port 22\<newline>'', ''    ForwardAgent yes\<newline>'']
   \<and> update_host_config_file ''# rp:managed'' (Some ''Host z'')
      \<lparr>host_alias = ''q'', pod_id = ''p1'', hostname = ''h'', port = 22, user = ''root'',
       identity_file = None\<rparr> ''T''
     = Some ''Host z\<newline>Host q\<newline>    # rp:managed alias=q pod_id=p1 updated=T\<newline>    HostName h\<newline>    User root\<newline>    Port 22\<newline>    ForwardAgent yes\<newline>''
   \<and> load_ssh_config_lines (update_host_config_file ''# rp:managed'' (Some ''Host z'')
      \<lparr>host_alias = ''q'', pod_id = ''p1'', hostname = ''h'', port = 22, user = ''root'',
       identity_file = None\<rparr> ''T'')
     = [''Host z\<newline>'', ''Host q\<newline>'', ''    # rp:managed alias=q pod_id=p1 updated=T\<newline>'',
        ''    HostName h\<newline>'', ''    User root\<newline>'', ''    Port 22\<newline>'', ''    ForwardAgent yes\<newline>'']"
  by code_simp

section \<open>Calling create-or-update twice\<close>

lemma spaces_then_group_pos: "spaces_then_group k s = Some g \<Longrightarrow> 0 < k"
  by (cases k) auto

lemma match_line_prefix: "match_host_line l = Some g \<Longrightarrow> match_host_prefix l"
proof -
  assume m: "match_host_line l = Some g"
  let ?t = "dropWhile is_space l"
  from m have t: "take 4 ?t = ''Host''"
    by (auto simp: match_host_line_def Let_def split: if_splits)
  with m have "spaces_then_group (length (takeWhile is_space (drop 4 ?t))) (drop 4 ?t) = Some g"
    by (simp add: match_host_line_def Let_def)
  then have "0 < length (takeWhile is_space (drop 4 ?t))" by (rule spaces_then_group_pos)
  then have "case drop 4 ?t of [] \<Rightarrow> False | c # _ \<Rightarrow> is_space c"
    by (cases "drop 4 ?t") (auto split: if_splits)
  with t show ?thesis by (simp add: match_host_prefix_def Let_def)
qed

lemma find_block_end_between:
  "i \<le> k \<Longrightarrow> k < find_block_end lines i \<Longrightarrow> \<not> match_host_prefix (lines ! k)"
proof (induction lines i rule: find_block_end.induct)
  case (1 lines i)
  show ?case
  proof (cases "i < length lines \<and> \<not> match_host_prefix (lines ! i)")
    case True
    then have e: "find_block_end lines i = find_block_end lines (i + 1)"
      by (simp add: find_block_end_step)
    show ?thesis
    proof (cases "k = i")
      case True
      with \<open>i < length lines \<and> \<not> match_host_prefix (lines ! i)\<close> show ?thesis by simp
    next
      case False
      with "1.prems" have "i + 1 \<le> k" by simp
      with 1 True e show ?thesis by simp
    qed
  next
    case False
    then have "find_block_end lines i = i"
      using find_block_end_stop_host find_block_end_stop_eof by (cases "i < length lines") auto
    with "1.prems" show ?thesis by simp
  qed
qed

lemma find_block_end_stops:
  "find_block_end lines i < length lines \<Longrightarrow> match_host_prefix (lines ! find_block_end lines i)"
proof (induction lines i rule: find_block_end.induct)
  case (1 lines i)
  show ?case
  proof (cases "i < length lines \<and> \<not> match_host_prefix (lines ! i)")
    case True
    then have e: "find_block_end lines i = find_block_end lines (i + 1)"
      by (simp add: find_block_end_step)
    with 1 True show ?thesis by simp
  next
    case False
    then have e: "find_block_end lines i = i"
      using find_block_end_stop_host find_block_end_stop_eof by (cases "i < length lines") auto
    with "1.prems" False show ?thesis by simp
  qed
qed

lemma find_block_end_eq:
  "i \<le> e \<Longrightarrow> e \<le> length lines \<Longrightarrow> \<forall>j. i \<le> j \<and> j < e \<longrightarrow> \<not> match_host_prefix (lines ! j) \<Longrightarrow>
   e = length lines \<or> match_host_prefix (lines ! e) \<Longrightarrow> find_block_end lines i = e"
proof (induction "e - i" arbitrary: i)
  case 0
  then have "i = e" by simp
  with 0 show ?case
    using find_block_end_stop_host find_block_end_stop_eof by auto
next
  case (Suc d)
  then have lt: "i < e" by simp
  with Suc.prems have "i < length lines" "\<not> match_host_prefix (lines ! i)" by auto
  then have "find_block_end lines i = find_block_end lines (Suc i)" by (rule find_block_end_step)
  moreover have "find_block_end lines (Suc i) = e"
    using Suc.hyps(2) lt Suc.prems by (intro Suc.hyps(1)) auto
  ultimately show ?case by simp
qed

lemma find_skip: "\<forall>x \<in> set xs. \<not> P x \<Longrightarrow> List.find P (xs @ ys) = List.find P ys"
  by (induction xs) auto

lemma find_target_block:
  "i \<le> length lines \<Longrightarrow>
   List.find (\<lambda>b. a \<in> set (hosts b)) (parse_blocks_from mp lines i)
     = (case List.find (\<lambda>k. opens_for a (lines ! k)) [i ..< length lines] of
          None \<Rightarrow> None
        | Some k \<Rightarrow> Some (block_at mp lines k (the (match_host_line (lines ! k)))))"
proof (induction mp lines i rule: parse_blocks_from.induct)
  case (1 mp lines i)
  show ?case
  proof (cases "i < length lines")
    case False
    then show ?thesis by (simp add: parse_blocks_from_eof)
  next
    case True
    then have upt: "[i ..< length lines] = i # [Suc i ..< length lines]"
      by (simp add: upt_conv_Cons)
    show ?thesis
    proof (cases "match_host_line (lines ! i)")
      case None
      from True have "i + 1 \<le> length lines" by simp
      from 1(1)[OF True None this] True None show ?thesis
        by (simp add: parse_blocks_from_skip upt opens_for_def)
    next
      case (Some g)
      let ?e = "find_block_end lines (i + 1)"
      have le: "?e \<le> length lines" using True by (intro find_block_end_le) simp
      have ge: "i + 1 \<le> ?e" by (rule find_block_end_ge)
      show ?thesis
      proof (cases "a \<in> set (py_split (strip g))")
        case True
        with \<open>i < length lines\<close> Some show ?thesis
          by (simp add: parse_blocks_from_open upt opens_for_def block_at_def)
      next
        case False
        have split: "[Suc i ..< length lines] = [Suc i ..< ?e] @ [?e ..< length lines]"
          using ge le by (metis Suc_eq_plus1 upt_add_eq_append le_Suc_ex)
        have none: "\<forall>k \<in> set [Suc i ..< ?e]. \<not> opens_for a (lines ! k)"
        proof
          fix k assume "k \<in> set [Suc i ..< ?e]"
          then have "i + 1 \<le> k" "k < ?e" by auto
          then have "\<not> match_host_prefix (lines ! k)" by (rule find_block_end_between)
          then have "match_host_line (lines ! k) = None"
            using match_line_prefix by (cases "match_host_line (lines ! k)") auto
          then show "\<not> opens_for a (lines ! k)" by (simp add: opens_for_def)
        qed
        have "List.find (\<lambda>k. opens_for a (lines ! k)) [i ..< length lines]
            = List.find (\<lambda>k. opens_for a (lines ! k)) [?e ..< length lines]"
          using False Some none by (simp add: upt opens_for_def split find_skip)
        moreover have "List.find (\<lambda>b. a \<in> set (hosts b)) (parse_blocks_from mp lines i)
            = List.find (\<lambda>b. a \<in> set (hosts b)) (parse_blocks_from mp lines ?e)"
          using False Some \<open>i < length lines\<close> by (simp add: parse_blocks_from_open block_at_def)
        ultimately show ?thesis using 1(2)[OF \<open>i < length lines\<close> Some le] by simp
      qed
    qed
  qed
qed

lemma update_host_config_eq:
  "update_host_config mp lines r ts =
     (case List.find (\<lambda>k. opens_for (host_alias r) (lines ! k)) [0 ..< length lines] of
        None \<Rightarrow> (if lines \<noteq> [] \<and> strip (last lines) \<noteq> [] then lines @ [''\<newline>''] else lines)
                 @ to_ssh_block r ts
      | Some k \<Rightarrow> take k lines @ to_ssh_block r ts @ drop (find_block_end lines (k + 1)) lines)"
  using find_target_block[of 0 lines "host_alias r" mp]
  by (simp add: update_host_config_def Let_def SSHManager_parse_ssh_blocks_def py_slice_def
      block_at_def split: option.splits)

lemma split_from_token:
  "\<forall>c \<in> set a. \<not> is_space c \<Longrightarrow> cur @ a \<noteq> [] \<Longrightarrow> split_from cur a = [cur @ a]"
  by (induction a arbitrary: cur) auto

lemma py_split_token: "alias_token a \<Longrightarrow> py_split a = [a]"
  using split_from_token[of a "[]"] by (simp add: alias_token_def py_split_def)

lemma dropWhile_token: "alias_token a \<Longrightarrow> dropWhile is_space a = a"
  by (cases a) (auto simp: alias_token_def)

lemma strip_token: "alias_token a \<Longrightarrow> strip a = a"
proof -
  assume t: "alias_token a"
  then have "alias_token (rev a)" by (simp add: alias_token_def)
  then have "dropWhile is_space (rev a) = rev a" by (rule dropWhile_token)
  with t show ?thesis by (simp add: strip_def rstrip_def lstrip_def dropWhile_token)
qed

lemma LF_space: "is_space (CHR 0x0A)"
  by (simp add: is_space_def)

lemma blank_space: "is_space (CHR '' '')"
  by (simp add: is_space_def)

lemma host_line_match:
  assumes "alias_token a"
  shows "match_host_line (''Host '' @ a @ ''\<newline>'') = Some a"
proof -
  from assms obtain c cs where a: "a = c # cs" "\<not> is_space c"
    by (cases a) (auto simp: alias_token_def)
  from assms LF_space have nl: "\<forall>x \<in> set a. x \<noteq> CHR 0x0A"
    by (auto simp: alias_token_def)
  have tw: "takeWhile is_space (CHR '' '' # a @ ''\<newline>'') = '' ''"
    using a blank_space by simp
  have "dot_plus_dollar (a @ ''\<newline>'') = Some a"
    using nl a(1) by (simp add: dot_plus_dollar_def Let_def at_dollar_def takeWhile_append2
        dropWhile_append2 del: a)
  then have "spaces_then_group (Suc 0) (CHR '' '' # a @ ''\<newline>'') = Some a" by simp
  with tw show ?thesis
    using H_not_space by (simp add: match_host_line_def Let_def)
qed

lemma host_line_opens: "alias_token a \<Longrightarrow> opens_for a (''Host '' @ a @ ''\<newline>'')"
  using host_line_match[of a] by (simp add: opens_for_def strip_token py_split_token)

lemma to_ssh_block_Cons:
  "to_ssh_block r ts = (''Host '' @ host_alias r @ ''\<newline>'') # tl (to_ssh_block r ts)"
  by (simp add: to_ssh_block_def)

lemma to_ssh_block_body:
  "l \<in> set (tl (to_ssh_block r ts)) \<Longrightarrow> \<not> match_host_prefix l"
  by (auto simp: to_ssh_block_def match_host_prefix_def Let_def is_space_def
      split: option.splits if_splits)

lemma find_upt_first:
  "k < n \<Longrightarrow> P k \<Longrightarrow> \<forall>j < k. \<not> P j \<Longrightarrow> List.find P [0 ..< n] = Some k"
proof -
  assume a: "k < n" "P k" "\<forall>j < k. \<not> P j"
  then have "[0 ..< n] = [0 ..< k] @ k # [Suc k ..< n]"
    by (metis le_add1 less_imp_add_positive plus_nat.add_0 upt_add_eq_append upt_conv_Cons)
  with a show ?thesis by (simp add: find_skip)
qed

lemma update_on_spliced:
  assumes tok: "alias_token (host_alias r)"
    and A: "\<forall>l \<in> set A. \<not> opens_for (host_alias r) l"
    and C: "C = [] \<or> match_host_prefix (hd C)"
  shows "update_host_config mp (A @ to_ssh_block r ts @ C) r ts = A @ to_ssh_block r ts @ C"
proof -
  let ?h = "''Host '' @ host_alias r @ ''\<newline>''"
  obtain B where N: "to_ssh_block r ts = ?h # B" and B: "\<forall>l \<in> set B. \<not> match_host_prefix l"
    using to_ssh_block_Cons[of r ts] to_ssh_block_body[of _ r ts] by blast
  let ?R = "A @ (?h # B) @ C"
  let ?k = "length A"
  have Rk: "?R ! ?k = ?h" by (simp add: nth_append)
  have klt: "?k < length ?R" by simp
  have first: "List.find (\<lambda>j. opens_for (host_alias r) (?R ! j)) [0 ..< length ?R] = Some ?k"
  proof (rule find_upt_first[OF klt])
    show "opens_for (host_alias r) (?R ! ?k)"
      unfolding Rk using tok by (rule host_line_opens)
    show "\<forall>j < ?k. \<not> opens_for (host_alias r) (?R ! j)"
      using A by (simp add: nth_append)
  qed
  have fin: "find_block_end ?R (?k + 1) = ?k + Suc (length B)"
  proof (rule find_block_end_eq)
    show "?k + 1 \<le> ?k + Suc (length B)" by simp
    show "?k + Suc (length B) \<le> length ?R" by simp
    show "\<forall>j. ?k + 1 \<le> j \<and> j < ?k + Suc (length B) \<longrightarrow> \<not> match_host_prefix (?R ! j)"
    proof (intro allI impI)
      fix j assume j: "?k + 1 \<le> j \<and> j < ?k + Suc (length B)"
      then obtain d where d: "j = ?k + Suc d" "d < length B"
        by (metis Suc_eq_plus1 add_Suc_right le_Suc_ex nat_add_left_cancel_less Suc_less_eq add.assoc plus_1_eq_Suc)
      then have "?R ! j = B ! d" by (simp add: nth_append)
      with d B show "\<not> match_host_prefix (?R ! j)" by simp
    qed
    show "?k + Suc (length B) = length ?R \<or> match_host_prefix (?R ! (?k + Suc (length B)))"
    proof (cases "C = []")
      case True
      then show ?thesis by simp
    next
      case False
      with C have "match_host_prefix (hd C)" by simp
      moreover from False have "?R ! (?k + Suc (length B)) = hd C"
        by (simp add: nth_append hd_conv_nth)
      ultimately show ?thesis by simp
    qed
  qed
  have "update_host_config mp ?R r ts
      = take ?k ?R @ to_ssh_block r ts @ drop (find_block_end ?R (?k + 1)) ?R"
    by (subst update_host_config_eq) (simp only: first option.case)
  also have "\<dots> = ?R"
    unfolding fin by (simp add: N)
  finally show ?thesis by (simp add: N)
qed

lemma newline_not_opens: "\<not> opens_for a ''\<newline>''"
  by (simp add: opens_for_def match_host_line_def Let_def is_space_def)

lemma update_host_config_twice:
  assumes tok: "alias_token (host_alias r)"
  shows "update_host_config mp (update_host_config mp lines r ts) r ts
         = update_host_config mp lines r ts"
proof (cases "List.find (\<lambda>k. opens_for (host_alias r) (lines ! k)) [0 ..< length lines]")
  case None
  then have no: "\<forall>l \<in> set lines. \<not> opens_for (host_alias r) l"
    by (auto simp: find_None_iff in_set_conv_nth)
  let ?A = "if lines \<noteq> [] \<and> strip (last lines) \<noteq> [] then lines @ [''\<newline>''] else lines"
  from None have e: "update_host_config mp lines r ts = ?A @ to_ssh_block r ts @ []"
    by (simp add: update_host_config_eq)
  have "\<forall>l \<in> set ?A. \<not> opens_for (host_alias r) l"
    using no newline_not_opens by auto
  from update_on_spliced[OF tok this, of "[]" mp ts] show ?thesis
    unfolding e by simp
next
  case (Some k)
  then have k: "k < length lines" "\<forall>j < k. \<not> opens_for (host_alias r) (lines ! j)"
    by (auto simp: find_Some_iff)
  let ?e = "find_block_end lines (k + 1)"
  from Some have e: "update_host_config mp lines r ts = take k lines @ to_ssh_block r ts @ drop ?e lines"
    by (simp add: update_host_config_eq)
  have A: "\<forall>l \<in> set (take k lines). \<not> opens_for (host_alias r) l"
    using k by (auto simp: in_set_conv_nth)
  have C: "drop ?e lines = [] \<or> match_host_prefix (hd (drop ?e lines))"
  proof (cases "?e < length lines")
    case True
    then have "match_host_prefix (lines ! ?e)" by (rule find_block_end_stops)
    with True show ?thesis by (simp add: hd_drop_conv_nth)
  next
    case False
    then show ?thesis by simp
  qed
  from update_on_spliced[OF tok A C] show ?thesis
    unfolding e .
qed

lemma universal_newlines_no_CR: "CHR 0x0D \<notin> set (universal_newlines s)"
  by (induction s rule: universal_newlines.induct) auto

lemma universal_newlines_id: "CHR 0x0D \<notin> set s \<Longrightarrow> universal_newlines s = s"
  by (induction s rule: universal_newlines.induct) auto

lemma lines_from_props:
  "CHR 0x0A \<notin> set cur \<Longrightarrow> l \<in> set (lines_from cur s) \<Longrightarrow>
   l \<noteq> [] \<and> CHR 0x0A \<notin> set (butlast l) \<and> set l \<subseteq> set cur \<union> set s"
proof (induction s arbitrary: cur)
  case Nil
  then show ?case by (auto split: if_splits dest: in_set_butlastD)
next
  case (Cons c s)
  show ?case
  proof (cases "c = CHR 0x0A")
    case True
    with Cons.prems(2) have "l = cur @ [c] \<or> l \<in> set (lines_from [] s)" by simp
    then show ?thesis
    proof
      assume "l = cur @ [c]"
      with Cons.prems(1) show ?thesis by auto
    next
      assume "l \<in> set (lines_from [] s)"
      with Cons.IH[of "[]"] show ?thesis by auto
    qed
  next
    case False
    with Cons.prems have "CHR 0x0A \<notin> set (cur @ [c])" "l \<in> set (lines_from (cur @ [c]) s)" by auto
    from Cons.IH[OF this] show ?thesis by auto
  qed
qed

lemma lines_from_line:
  "CHR 0x0A \<notin> set body \<Longrightarrow>
   lines_from cur (body @ CHR 0x0A # rest) = (cur @ body @ [CHR 0x0A]) # lines_from [] rest"
  by (induction body arbitrary: cur) auto

lemma terminated_line_split:
  "terminated_line l \<Longrightarrow> \<exists>b. l = b @ [CHR 0x0A] \<and> no_line_break b"
proof -
  assume t: "terminated_line l"
  then have "l \<noteq> []" and e: "last l = CHR 0x0A" by (simp_all add: terminated_line_def)
  then have "butlast l @ [last l] = l" by (intro append_butlast_last_id)
  then have "l = butlast l @ [CHR 0x0A]" unfolding e by (rule sym)
  with t show ?thesis unfolding terminated_line_def by blast
qed

lemma lines_from_concat:
  "\<forall>l \<in> set ls. terminated_line l \<Longrightarrow> lines_from [] (concat ls) = ls"
proof (induction ls)
  case Nil
  then show ?case by simp
next
  case (Cons l ls)
  then obtain b where l: "l = b @ [CHR 0x0A]" and b: "no_line_break b"
    using terminated_line_split[of l] by auto
  from b have "lines_from [] (b @ CHR 0x0A # concat ls) = ([] @ b @ [CHR 0x0A]) # lines_from [] (concat ls)"
    by (intro lines_from_line) (simp add: no_line_break_def)
  with Cons show ?case by (simp add: l)
qed

lemma terminated_line_no_CR: "terminated_line l \<Longrightarrow> CHR 0x0D \<notin> set l"
proof -
  assume "terminated_line l"
  then obtain b where "l = b @ [CHR 0x0A]" "no_line_break b"
    using terminated_line_split by blast
  then show ?thesis by (simp add: no_line_break_def)
qed

lemma readlines_concat:
  "\<forall>l \<in> set ls. terminated_line l \<Longrightarrow> readlines (concat ls) = ls"
proof -
  assume a: "\<forall>l \<in> set ls. terminated_line l"
  then have "CHR 0x0D \<notin> set (concat ls)" using terminated_line_no_CR by auto
  then show ?thesis using a by (simp add: readlines_def universal_newlines_id lines_from_concat)
qed

lemma readlines_terminated:
  assumes "l \<in> set (readlines c)" "last l = CHR 0x0A"
  shows "terminated_line l"
proof -
  from assms(1) have "l \<noteq> [] \<and> CHR 0x0A \<notin> set (butlast l) \<and> set l \<subseteq> set [] \<union> set (universal_newlines c)"
    unfolding readlines_def by (intro lines_from_props) auto
  moreover have "CHR 0x0D \<notin> set (universal_newlines c)" by (rule universal_newlines_no_CR)
  ultimately show ?thesis using assms(2)
    by (auto simp: terminated_line_def no_line_break_def dest: in_set_butlastD)
qed

lemma digit_char_no_break:
  "k < 10 \<Longrightarrow> char_of (48 + k :: nat) \<noteq> CHR 0x0A \<and> char_of (48 + k :: nat) \<noteq> CHR 0x0D"
proof -
  assume k: "k < 10"
  have "of_char (char_of (48 + k :: nat) :: char) = ((48 + k) mod 256 :: nat)" by simp
  with k have v: "of_char (char_of (48 + k :: nat) :: char) = (48 + k :: nat)" by simp
  show ?thesis
  proof (intro conjI notI)
    assume "char_of (48 + k :: nat) = CHR 0x0A"
    then have "of_char (char_of (48 + k :: nat) :: char) = (of_char (CHR 0x0A) :: nat)" by simp
    with v show False by simp
  next
    assume "char_of (48 + k :: nat) = CHR 0x0D"
    then have "of_char (char_of (48 + k :: nat) :: char) = (of_char (CHR 0x0D) :: nat)" by simp
    with v show False by simp
  qed
qed

lemma str_nat_no_break: "no_line_break (str_nat n)"
proof (induction n rule: str_nat.induct)
  case (1 n)
  show ?case
  proof (cases "n < 10")
    case True
    with digit_char_no_break[of n] show ?thesis
      by (subst str_nat.simps) (auto simp: no_line_break_def)
  next
    case False
    have "n mod 10 < 10" by simp
    from digit_char_no_break[OF this] 1[OF False] False show ?thesis
      by (subst str_nat.simps) (auto simp: no_line_break_def)
  qed
qed

lemma str_int_no_break: "no_line_break (str_int i)"
  using str_nat_no_break[of "nat i"] str_nat_no_break[of "nat (- i)"]
  by (simp add: str_int_def no_line_break_def)

lemma terminated_lineI: "no_line_break b \<Longrightarrow> terminated_line (b @ [CHR 0x0A])"
  by (simp add: terminated_line_def)

lemma no_line_break_append: "no_line_break (a @ b) \<longleftrightarrow> no_line_break a \<and> no_line_break b"
  by (auto simp: no_line_break_def)

lemma no_line_break_Cons:
  "no_line_break (c # s) \<longleftrightarrow> c \<noteq> CHR 0x0A \<and> c \<noteq> CHR 0x0D \<and> no_line_break s"
  by (auto simp: no_line_break_def)

lemma no_line_break_Nil: "no_line_break []"
  by (simp add: no_line_break_def)

lemmas nlb = no_line_break_append no_line_break_Cons no_line_break_Nil

lemma alias_token_no_break: "alias_token a \<Longrightarrow> no_line_break a"
  by (auto simp: alias_token_def no_line_break_def is_space_def)

lemma to_ssh_block_terminated:
  assumes "alias_token (host_alias r)" "record_one_line r ts" "l \<in> set (to_ssh_block r ts)"
  shows "terminated_line l"
proof -
  from assms(1) have a: "no_line_break (host_alias r)" by (rule alias_token_no_break)
  have 1: "terminated_line (''Host '' @ host_alias r @ ''\<newline>'')"
    using terminated_lineI[of "''Host '' @ host_alias r"] a by (simp add: nlb)
  have 2: "terminated_line (''    # rp:managed alias='' @ host_alias r @ '' pod_id='' @ pod_id r
         @ '' updated='' @ ts @ ''\<newline>'')"
    using terminated_lineI[of "''    # rp:managed alias='' @ host_alias r @ '' pod_id='' @ pod_id r
         @ '' updated='' @ ts"] a assms(2)
    by (simp add: nlb record_one_line_def)
  have 3: "terminated_line (''    HostName '' @ hostname r @ ''\<newline>'')"
    using terminated_lineI[of "''    HostName '' @ hostname r"] assms(2)
    by (simp add: nlb record_one_line_def)
  have 4: "terminated_line (''    User '' @ user r @ ''\<newline>'')"
    using terminated_lineI[of "''    User '' @ user r"] assms(2)
    by (simp add: nlb record_one_line_def)
  have 5: "terminated_line (''    Port '' @ str_int (port r) @ ''\<newline>'')"
    using terminated_lineI[of "''    Port '' @ str_int (port r)"] str_int_no_break[of "port r"]
    by (simp add: nlb)
  have 6: "terminated_line ''    IdentitiesOnly yes\<newline>''"
    using terminated_lineI[of "''    IdentitiesOnly yes''"] by (simp add: nlb)
  have 7: "identity_file r = Some f \<Longrightarrow> terminated_line (''    IdentityFile '' @ f @ ''\<newline>'')" for f
    using terminated_lineI[of "''    IdentityFile '' @ f"] assms(2)
    by (simp add: nlb record_one_line_def)
  have 8: "terminated_line ''    ForwardAgent yes\<newline>''"
    using terminated_lineI[of "''    ForwardAgent yes''"] by (simp add: nlb)
  from assms(3) 1 2 3 4 5 6 7 8 show ?thesis
    by (auto simp: to_ssh_block_def split: option.splits if_splits)
qed

lemma update_host_config_terminated:
  assumes L: "\<forall>l \<in> set lines. terminated_line l"
    and N: "\<forall>l \<in> set (to_ssh_block r ts). terminated_line l"
  shows "\<forall>l \<in> set (update_host_config mp lines r ts). terminated_line l"
proof -
  have nl: "terminated_line ''\<newline>''" by (simp add: terminated_line_def no_line_break_def)
  show ?thesis
  proof (cases "List.find (\<lambda>k. opens_for (host_alias r) (lines ! k)) [0 ..< length lines]")
    case None
    with L N nl show ?thesis by (auto simp: update_host_config_eq)
  next
    case (Some k)
    with L N show ?thesis
      by (auto simp: update_host_config_eq dest: in_set_takeD in_set_dropD)
  qed
qed

lemma no_LF_takeWhile:
  "CHR 0x0A \<notin> set x \<Longrightarrow> takeWhile (\<lambda>c. c \<noteq> CHR 0x0A) x = x \<and> dropWhile (\<lambda>c. c \<noteq> CHR 0x0A) x = []"
  by (induction x) auto

lemma dot_plus_dollar_no_LF:
  "CHR 0x0A \<notin> set x \<Longrightarrow> dot_plus_dollar x = (if x \<noteq> [] then Some x else None)"
  by (simp add: dot_plus_dollar_def Let_def at_dollar_def no_LF_takeWhile)

lemma no_LF_takeWhile_end:
  "CHR 0x0A \<notin> set x \<Longrightarrow> takeWhile (\<lambda>c. c \<noteq> CHR 0x0A) (x @ [CHR 0x0A]) = x
     \<and> dropWhile (\<lambda>c. c \<noteq> CHR 0x0A) (x @ [CHR 0x0A]) = [CHR 0x0A]"
  by (induction x) auto

lemma dot_plus_dollar_LF_end:
  "CHR 0x0A \<notin> set x \<Longrightarrow> dot_plus_dollar (x @ [CHR 0x0A]) = (if x \<noteq> [] then Some x else None)"
  by (simp add: dot_plus_dollar_def Let_def at_dollar_def no_LF_takeWhile_end)

lemma spaces_then_group_LF_end:
  "CHR 0x0A \<notin> set s \<Longrightarrow> k \<le> length s \<Longrightarrow>
   spaces_then_group k (s @ [CHR 0x0A]) = spaces_then_group k s"
proof (induction k)
  case 0
  then show ?case by simp
next
  case (Suc k)
  then have "CHR 0x0A \<notin> set (drop (Suc k) s)" by (auto dest: in_set_dropD)
  with Suc show ?case
    by (simp add: dot_plus_dollar_no_LF dot_plus_dollar_LF_end)
qed

lemma dot_plus_dollar_subset: "dot_plus_dollar r = Some g \<Longrightarrow> set g \<subseteq> set r"
  by (auto simp: dot_plus_dollar_def Let_def split: if_splits dest: set_takeWhileD)

lemma spaces_then_group_subset: "spaces_then_group k s = Some g \<Longrightarrow> set g \<subseteq> set s"
proof (induction k)
  case 0
  then show ?case by simp
next
  case (Suc k)
  show ?case
  proof (cases "dot_plus_dollar (drop (Suc k) s)")
    case None
    with Suc show ?thesis by simp
  next
    case (Some g')
    with Suc.prems have "g' = g" by simp
    with Some dot_plus_dollar_subset[of "drop (Suc k) s" g] show ?thesis
      by (auto dest: in_set_dropD)
  qed
qed

lemma py_split_blank: "\<forall>c \<in> set g. is_space c \<Longrightarrow> py_split (strip g) = []"
proof -
  assume "\<forall>c \<in> set g. is_space c"
  then have "strip g = []" by (simp add: strip_Nil_iff)
  then show ?thesis by (simp add: py_split_def)
qed

lemma take4_LF_end:
  "take 4 (t @ [CHR 0x0A]) = ''Host'' \<longleftrightarrow> take 4 t = ''Host''"
proof (cases "4 \<le> length t")
  case True
  then show ?thesis by simp
next
  case False
  then have e: "take 4 (t @ [CHR 0x0A]) = t @ [CHR 0x0A]" by simp
  have "t @ [CHR 0x0A] \<noteq> ''Host''"
  proof
    assume "t @ [CHR 0x0A] = ''Host''"
    then have "last (t @ [CHR 0x0A]) = last ''Host''" by (rule arg_cong)
    then show False by simp
  qed
  moreover from False have "take 4 t \<noteq> ''Host''"
  proof -
    have "length (take 4 t) < 4" using False by simp
    then show ?thesis by auto
  qed
  ultimately show ?thesis using e by simp
qed

lemma match_host_line_unfold:
  "match_host_line l =
     (if take 4 (dropWhile is_space l) = ''Host''
      then spaces_then_group (length (takeWhile is_space (drop 4 (dropWhile is_space l))))
             (drop 4 (dropWhile is_space l))
      else None)"
  by (simp add: match_host_line_def Let_def)

lemma opens_for_LF_end:
  assumes nl: "CHR 0x0A \<notin> set l" and no: "\<not> opens_for a l"
  shows "\<not> opens_for a (l @ [CHR 0x0A])"
proof (cases "\<forall>c \<in> set l. is_space c")
  case True
  then have "dropWhile is_space (l @ [CHR 0x0A]) = []"
    using LF_space by (simp add: dropWhile_eq_Nil_conv)
  then have "match_host_line (l @ [CHR 0x0A]) = None"
    by (simp add: match_host_line_unfold)
  then show ?thesis by (simp add: opens_for_def)
next
  case False
  then obtain x where x: "x \<in> set l" "\<not> is_space x" by blast
  define t where "t = dropWhile is_space l"
  have dw: "dropWhile is_space (l @ [CHR 0x0A]) = t @ [CHR 0x0A]"
    unfolding t_def using x by (rule dropWhile_append1)
  have nlt: "CHR 0x0A \<notin> set t"
    unfolding t_def using nl set_dropWhileD by fastforce
  have ml: "match_host_line l =
      (if take 4 t = ''Host''
       then spaces_then_group (length (takeWhile is_space (drop 4 t))) (drop 4 t) else None)"
    unfolding t_def by (rule match_host_line_unfold)
  have mn: "match_host_line (l @ [CHR 0x0A]) =
      (if take 4 t = ''Host''
       then spaces_then_group (length (takeWhile is_space (drop 4 (t @ [CHR 0x0A]))))
              (drop 4 (t @ [CHR 0x0A])) else None)"
    by (subst match_host_line_unfold) (simp only: dw take4_LF_end)
  show ?thesis
  proof (cases "take 4 t = ''Host''")
    case F: False
    with mn have "match_host_line (l @ [CHR 0x0A]) = None" by simp
    then show ?thesis by (simp add: opens_for_def)
  next
    case T: True
    then have "length (take 4 t) = length ''Host''" by (rule arg_cong)
    then have len: "4 \<le> length t" by simp
    define s where "s = drop 4 t"
    have nls: "CHR 0x0A \<notin> set s"
      unfolding s_def using nlt in_set_dropD by fastforce
    have dr: "drop 4 (t @ [CHR 0x0A]) = s @ [CHR 0x0A]"
      unfolding s_def using len by simp
    have ml': "match_host_line l = spaces_then_group (length (takeWhile is_space s)) s"
      using ml T by (simp add: s_def)
    have mn': "match_host_line (l @ [CHR 0x0A])
        = spaces_then_group (length (takeWhile is_space (s @ [CHR 0x0A]))) (s @ [CHR 0x0A])"
      unfolding mn dr using T by simp
    show ?thesis
    proof (cases "\<forall>c \<in> set s. is_space c")
      case True
      then have blank: "\<forall>c \<in> set (s @ [CHR 0x0A]). is_space c" by (simp add: LF_space)
      show ?thesis
      proof (cases "match_host_line (l @ [CHR 0x0A])")
        case None
        then show ?thesis by (simp add: opens_for_def)
      next
        case (Some g)
        with mn' have "spaces_then_group (length (takeWhile is_space (s @ [CHR 0x0A]))) (s @ [CHR 0x0A]) = Some g"
          by simp
        from spaces_then_group_subset[OF this] blank have "\<forall>c \<in> set g. is_space c" by blast
        then have "py_split (strip g) = []" by (rule py_split_blank)
        with Some show ?thesis by (simp add: opens_for_def)
      qed
    next
      case False
      then obtain y where y: "y \<in> set s" "\<not> is_space y" by blast
      have tw: "takeWhile is_space (s @ [CHR 0x0A]) = takeWhile is_space s"
        using y by (rule takeWhile_append1)
      have "length (takeWhile is_space s) \<le> length s" by (rule length_takeWhile_le)
      from spaces_then_group_LF_end[OF nls this]
      have "match_host_line (l @ [CHR 0x0A]) = match_host_line l"
        unfolding mn' ml' tw .
      with no show ?thesis by (simp add: opens_for_def)
    qed
  qed
qed

lemma lines_from_open:
  "CHR 0x0A \<notin> set t \<Longrightarrow> cur @ t \<noteq> [] \<Longrightarrow> lines_from cur t = [cur @ t]"
  by (induction t arbitrary: cur) auto

lemma lines_from_concat_open:
  "\<forall>l \<in> set ls. terminated_line l \<Longrightarrow> open_line t \<Longrightarrow> lines_from [] (concat ls @ t) = ls @ [t]"
proof (induction ls)
  case Nil
  then show ?case using lines_from_open[of t "[]"] by (simp add: open_line_def no_line_break_def)
next
  case (Cons l ls)
  then obtain b where l: "l = b @ [CHR 0x0A]" and b: "no_line_break b"
    using terminated_line_split[of l] by auto
  from b have "lines_from [] (b @ CHR 0x0A # (concat ls @ t))
      = ([] @ b @ [CHR 0x0A]) # lines_from [] (concat ls @ t)"
    by (intro lines_from_line) (simp add: no_line_break_def)
  with Cons show ?case by (simp add: l)
qed

lemma readlines_concat_loadable:
  assumes "loadable ls"
  shows "readlines (concat ls) = ls"
proof (cases "\<forall>l \<in> set ls. terminated_line l")
  case True
  then show ?thesis by (rule readlines_concat)
next
  case False
  then have ne: "ls \<noteq> []" by auto
  then have sp: "ls = butlast ls @ [last ls]" by simp
  from assms have bl: "\<forall>l \<in> set (butlast ls). terminated_line l" by (simp add: loadable_def)
  have "\<not> terminated_line (last ls)"
  proof
    assume "terminated_line (last ls)"
    with bl have "\<forall>l \<in> set (butlast ls @ [last ls]). terminated_line l" by auto
    with sp False show False by simp
  qed
  with assms ne have op: "open_line (last ls)" by (simp add: loadable_def)
  have cr: "CHR 0x0D \<notin> set (concat (butlast ls) @ last ls)"
    using bl op terminated_line_no_CR by (auto simp: open_line_def no_line_break_def)
  have "readlines (concat (butlast ls @ [last ls])) = butlast ls @ [last ls]"
    using lines_from_concat_open[OF bl op] universal_newlines_id[OF cr]
    by (simp add: readlines_def)
  with sp show ?thesis by simp
qed

lemma lines_from_butlast_terminated:
  "l \<in> set (butlast (lines_from cur s)) \<Longrightarrow> last l = CHR 0x0A"
proof (induction s arbitrary: cur)
  case Nil
  then show ?case by (simp split: if_splits)
next
  case (Cons c s)
  show ?case
  proof (cases "c = CHR 0x0A")
    case True
    with Cons.prems have "l \<in> set (butlast ((cur @ [c]) # lines_from [] s))" by simp
    then have "l = cur @ [c] \<or> l \<in> set (butlast (lines_from [] s))"
      by (auto split: if_splits)
    with True Cons.IH[of "[]"] show ?thesis by auto
  next
    case False
    with Cons.prems have "l \<in> set (butlast (lines_from (cur @ [c]) s))" by simp
    then show ?thesis by (rule Cons.IH)
  qed
qed

lemma readlines_loadable: "loadable (readlines c)"
proof -
  let ?ls = "readlines c"
  have props: "\<And>l. l \<in> set ?ls \<Longrightarrow> l \<noteq> [] \<and> CHR 0x0A \<notin> set (butlast l) \<and> CHR 0x0D \<notin> set l"
  proof -
    fix l assume "l \<in> set ?ls"
    then have "l \<noteq> [] \<and> CHR 0x0A \<notin> set (butlast l) \<and> set l \<subseteq> set [] \<union> set (universal_newlines c)"
      unfolding readlines_def by (intro lines_from_props) auto
    with universal_newlines_no_CR[of c]
    show "l \<noteq> [] \<and> CHR 0x0A \<notin> set (butlast l) \<and> CHR 0x0D \<notin> set l" by auto
  qed
  have 1: "\<forall>l \<in> set (butlast ?ls). terminated_line l"
  proof
    fix l assume l: "l \<in> set (butlast ?ls)"
    then have "last l = CHR 0x0A" unfolding readlines_def by (rule lines_from_butlast_terminated)
    moreover from l have "l \<in> set ?ls" by (rule in_set_butlastD)
    ultimately show "terminated_line l" by (rule readlines_terminated[rotated])
  qed
  have 2: "?ls \<noteq> [] \<longrightarrow> terminated_line (last ?ls) \<or> open_line (last ?ls)"
  proof
    assume "?ls \<noteq> []"
    then have m: "last ?ls \<in> set ?ls" by simp
    show "terminated_line (last ?ls) \<or> open_line (last ?ls)"
    proof (cases "last (last ?ls) = CHR 0x0A")
      case True
      with m show ?thesis by (auto intro: readlines_terminated)
    next
      case False
      from props[OF m] have p: "last ?ls \<noteq> []" "CHR 0x0A \<notin> set (butlast (last ?ls))"
        "CHR 0x0D \<notin> set (last ?ls)" by auto
      from p(1) have "set (last ?ls) = set (butlast (last ?ls)) \<union> {last (last ?ls)}"
        by (metis Un_insert_right append_butlast_last_id list.simps(15) set_append sup_bot.right_neutral empty_set)
      with False p have "CHR 0x0A \<notin> set (last ?ls)" by auto
      with p show ?thesis by (simp add: open_line_def no_line_break_def)
    qed
  qed
  from 1 2 show ?thesis by (simp add: loadable_def)
qed

lemma loadable_replace:
  assumes L: "loadable L" and N: "\<forall>l \<in> set N. terminated_line l" and ne: "N \<noteq> []"
    and k: "k < length L"
  shows "loadable (take k L @ N @ drop e L)"
proof -
  from L have bl: "\<forall>l \<in> set (butlast L). terminated_line l" by (simp add: loadable_def)
  from k have "take k (butlast L) = take k L" by (intro take_butlast)
  then have tk: "\<forall>l \<in> set (take k L). terminated_line l"
    using bl by (metis in_set_takeD)
  show ?thesis
  proof (cases "drop e L = []")
    case True
    with ne have "butlast (take k L @ N @ drop e L) = take k L @ butlast N"
      and "last (take k L @ N @ drop e L) = last N"
      by (simp_all add: butlast_append)
    moreover from ne N have "terminated_line (last N)" by simp
    moreover have "\<forall>l \<in> set (butlast N). terminated_line l" using N by (auto dest: in_set_butlastD)
    ultimately show ?thesis using tk by (auto simp: loadable_def)
  next
    case False
    then have Lne: "L \<noteq> []" by auto
    from False have b: "butlast (take k L @ N @ drop e L) = take k L @ N @ butlast (drop e L)"
      and l: "last (take k L @ N @ drop e L) = last L"
      by (simp_all add: butlast_append)
    have "butlast (drop e L) = drop e (butlast L)" by (simp add: drop_butlast)
    then have "\<forall>l \<in> set (butlast (drop e L)). terminated_line l"
      using bl by (auto dest: in_set_dropD)
    moreover from L Lne have "terminated_line (last L) \<or> open_line (last L)" by (simp add: loadable_def)
    ultimately show ?thesis using tk N unfolding loadable_def b l by auto
  qed
qed

lemma terminated_loadable: "\<forall>l \<in> set ls. terminated_line l \<Longrightarrow> loadable ls"
  by (auto simp: loadable_def dest: in_set_butlastD)

lemma to_ssh_block_not_Nil: "to_ssh_block r ts \<noteq> []"
  by (simp add: to_ssh_block_def)

lemma load_write: "load_ssh_config_lines (write_ssh_config_lines ls) = readlines (concat ls)"
  by (simp add: write_ssh_config_lines_def load_ssh_config_lines_def)

text \<open>
  C5, amended. Let the alias of the record be one name (not empty, no whitespace), let
  pod id, hostname, user, identity file and timestamp hold no line break, and let the
  starting document be empty (or the file missing), or end with a newline, or have a last
  line that is not blank. Then a second \<^verbatim>\<open>update_host_config\<close> with the same record and
  timestamp leaves the file exactly as the first call wrote it.
\<close>

theorem update_host_config_file_idempotent:
  assumes tok: "alias_token (host_alias r)"
    and one: "record_one_line r ts"
    and tail: "load_ssh_config_lines conf = []
       \<or> last (last (load_ssh_config_lines conf)) = CHR 0x0A
       \<or> strip (last (load_ssh_config_lines conf)) \<noteq> []"
  shows "update_host_config_file mp (update_host_config_file mp conf r ts) r ts
         = update_host_config_file mp conf r ts"
proof -
  let ?L = "load_ssh_config_lines conf"
  let ?N = "to_ssh_block r ts"
  let ?R = "update_host_config mp ?L r ts"
  have L: "loadable ?L"
    by (cases conf) (simp_all add: load_ssh_config_lines_def readlines_loadable, simp add: loadable_def)
  have N: "\<forall>l \<in> set ?N. terminated_line l"
    using to_ssh_block_terminated[OF tok one] by blast
  have via_reload: "load_ssh_config_lines (write_ssh_config_lines ?R) = ?R \<Longrightarrow> ?thesis"
  proof -
    assume "load_ssh_config_lines (write_ssh_config_lines ?R) = ?R"
    then have "update_host_config_file mp (update_host_config_file mp conf r ts) r ts
        = write_ssh_config_lines (update_host_config mp ?R r ts)"
      by (simp add: update_host_config_file_def)
    also have "\<dots> = write_ssh_config_lines ?R"
      using update_host_config_twice[OF tok] by simp
    finally show ?thesis by (simp add: update_host_config_file_def)
  qed
  have reload: "loadable ?R \<Longrightarrow> load_ssh_config_lines (write_ssh_config_lines ?R) = ?R"
    unfolding load_write by (rule readlines_concat_loadable)
  show ?thesis
  proof (cases "List.find (\<lambda>k. opens_for (host_alias r) (?L ! k)) [0 ..< length ?L]")
    case (Some k)
    then have k: "k < length ?L" by (auto simp: find_Some_iff)
    from Some have "?R = take k ?L @ ?N @ drop (find_block_end ?L (k + 1)) ?L"
      by (simp add: update_host_config_eq)
    with loadable_replace[OF L N to_ssh_block_not_Nil k] have "loadable ?R" by simp
    then show ?thesis by (intro via_reload reload)
  next
    case None
    then have no: "\<forall>l \<in> set ?L. \<not> opens_for (host_alias r) l"
      by (auto simp: find_None_iff in_set_conv_nth)
    show ?thesis
    proof (cases "\<forall>l \<in> set ?L. terminated_line l")
      case True
      from update_host_config_terminated[OF True N] have "loadable ?R"
        by (intro terminated_loadable)
      then show ?thesis by (intro via_reload reload)
    next
      case False
      then have ne: "?L \<noteq> []" by auto
      from L have bl: "\<forall>l \<in> set (butlast ?L). terminated_line l" by (simp add: loadable_def)
      have nt: "\<not> terminated_line (last ?L)"
      proof
        assume "terminated_line (last ?L)"
        with bl have "\<forall>l \<in> set (butlast ?L @ [last ?L]). terminated_line l" by auto
        with ne False show False by simp
      qed
      with L ne have op: "open_line (last ?L)" by (simp add: loadable_def)
      then have nlf: "CHR 0x0A \<notin> set (last ?L)" by (simp add: open_line_def no_line_break_def)
      from op have "last (last ?L) \<noteq> CHR 0x0A"
        using nlf by (metis last_in_set open_line_def)
      with tail ne have nb: "strip (last ?L) \<noteq> []" by simp
      define t where "t = last ?L"
      define L0 where "L0 = butlast ?L"
      have sp: "?L = L0 @ [t]" using ne by (simp add: L0_def t_def)
      from None ne nb have R: "?R = ?L @ [''\<newline>''] @ ?N"
        by (simp add: update_host_config_eq)
      let ?A = "L0 @ [t @ ''\<newline>'']"
      have cc: "concat ?R = concat (?A @ ?N @ [])"
        unfolding R by (subst sp) simp
      have tl: "terminated_line (t @ ''\<newline>'')"
        using op terminated_lineI[of t] by (simp add: t_def open_line_def)
      have A_term: "\<forall>l \<in> set (?A @ ?N @ []). terminated_line l"
        using bl tl N by (auto simp: L0_def)
      have A_no: "\<forall>l \<in> set ?A. \<not> opens_for (host_alias r) l"
      proof -
        from no sp have "\<not> opens_for (host_alias r) t" and "\<forall>l \<in> set L0. \<not> opens_for (host_alias r) l"
          by (metis in_set_conv_decomp, metis Un_iff set_append)
        moreover from this(1) nlf have "\<not> opens_for (host_alias r) (t @ [CHR 0x0A])"
          unfolding t_def by (intro opens_for_LF_end)
        ultimately show ?thesis by simp
      qed
      have fixd: "update_host_config mp (?A @ ?N @ []) r ts = ?A @ ?N @ []"
        by (rule update_on_spliced[OF tok A_no]) simp
      have "load_ssh_config_lines (update_host_config_file mp conf r ts) = ?A @ ?N @ []"
        unfolding update_host_config_file_def load_write cc
        using A_term by (rule readlines_concat)
      then have "update_host_config_file mp (update_host_config_file mp conf r ts) r ts
          = write_ssh_config_lines (update_host_config mp (?A @ ?N @ []) r ts)"
        by (simp add: update_host_config_file_def)
      also have "\<dots> = write_ssh_config_lines (?A @ ?N @ [])" by (simp only: fixd)
      also have "\<dots> = write_ssh_config_lines ?R"
        by (simp add: write_ssh_config_lines_def cc)
      finally show ?thesis by (simp add: update_host_config_file_def)
    qed
  qed
qed

text \<open>
  C5 as stated fails: for the alias \<^verbatim>\<open>my pod\<close> the block written by the first
  call has the hosts \<^verbatim>\<open>my\<close> and \<^verbatim>\<open>pod\<close>, no block answers to the alias, and the
  second call appends the block once more.
\<close>

theorem update_host_config_file_repeats_for_alias_with_blank:
  "update_host_config_file ''# rp:managed''
     (update_host_config_file ''# rp:managed'' None
        \<lparr>host_alias = ''my pod'', pod_id = ''p1'', hostname = ''h'', port = 22, user = ''root'',
         identity_file = None\<rparr> ''T'')
     \<lparr>host_alias = ''my pod'', pod_id = ''p1'', hostname = ''h'', port = 22, user = ''root'',
      identity_file = None\<rparr> ''T''
   \<noteq> update_host_config_file ''# rp:managed'' None
        \<lparr>host_alias = ''my pod'', pod_id = ''p1'', hostname = ''h'', port = 22, user = ''root'',
         identity_file = None\<rparr> ''T''"
  by code_simp

text \<open>
  The other two hypotheses of the amended statement are needed as well: with a document
  whose last line is blank and has no terminator, and with a hostname that holds a line
  break, the second call changes the file again.
\<close>

lemma update_host_config_file_repeats_after_blank_tail:
  "update_host_config_file ''# rp:managed''
     (update_host_config_file ''# rp:managed'' (Some ''  '')
        \<lparr>host_alias = ''a'', pod_id = ''p1'', hostname = ''h'', port = 22, user = ''root'',
         identity_file = None\<rparr> ''T'')
     \<lparr>host_alias = ''a'', pod_id = ''p1'', hostname = ''h'', port = 22, user = ''root'',
      identity_file = None\<rparr> ''T''
   \<noteq> update_host_config_file ''# rp:managed'' (Some ''  '')
        \<lparr>host_alias = ''a'', pod_id = ''p1'', hostname = ''h'', port = 22, user = ''root'',
         identity_file = None\<rparr> ''T''"
  by code_simp

lemma update_host_config_file_repeats_for_hostname_with_newline:
  "update_host_config_file ''# rp:managed''
     (update_host_config_file ''# rp:managed'' None
        \<lparr>host_alias = ''a'', pod_id = ''p1'', hostname = ''h\<newline>Host b'', port = 22, user = ''root'',
         identity_file = None\<rparr> ''T'')
     \<lparr>host_alias = ''a'', pod_id = ''p1'', hostname = ''h\<newline>Host b'', port = 22, user = ''root'',
      identity_file = None\<rparr> ''T''
   \<noteq> update_host_config_file ''# rp:managed'' None
        \<lparr>host_alias = ''a'', pod_id = ''p1'', hostname = ''h\<newline>Host b'', port = 22, user = ''root'',
         identity_file = None\<rparr> ''T''"
  by code_simp

theorem update_host_config_file_idempotent_witness:
  "update_host_config_file ''# rp:managed''
        (update_host_config_file ''# rp:managed'' (Some ''Host z\<newline>'')
           \<lparr>host_alias = ''x'', pod_id = ''p1'', hostname = ''h'', port = 22, user = ''root'',
            identity_file = Some ''~/.ssh/k''\<rparr> ''T'')
        \<lparr>host_alias = ''x'', pod_id = ''p1'', hostname = ''h'', port = 22, user = ''root'',
         identity_file = Some ''~/.ssh/k''\<rparr> ''T''
     = update_host_config_file ''# rp:managed'' (Some ''Host z\<newline>'')
        \<lparr>host_alias = ''x'', pod_id = ''p1'', hostname = ''h'', port = 22, user = ''root'',
         identity_file = Some ''~/.ssh/k''\<rparr> ''T''
   \<and> update_host_config_file ''# rp:managed''
        (update_host_config_file ''# rp:managed'' (Some ''Host z'')
           \<lparr>host_alias = ''x'', pod_id = ''p1'', hostname = ''h'', port = 22, user = ''root'',
            identity_file = Some ''~/.ssh/k''\<rparr> ''T'')
        \<lparr>host_alias = ''x'', pod_id = ''p1'', hostname = ''h'', port = 22, user = ''root'',
         identity_file = Some ''~/.ssh/k''\<rparr> ''T''
     = update_host_config_file ''# rp:managed'' (Some ''Host z'')
        \<lparr>host_alias = ''x'', pod_id = ''p1'', hostname = ''h'', port = 22, user = ''root'',
         identity_file = Some ''~/.ssh/k''\<rparr> ''T''"
proof -
  let ?r = "\<lparr>host_alias = ''x'', pod_id = ''p1'', hostname = ''h'', port = 22, user = ''root'',
         identity_file = Some ''~/.ssh/k''\<rparr>"
  have 1: "alias_token (host_alias ?r)" by code_simp
  have 2: "record_one_line ?r ''T''" by code_simp
  have 3: "load_ssh_config_lines (Some ''Host z\<newline>'') = []
       \<or> last (last (load_ssh_config_lines (Some ''Host z\<newline>''))) = CHR 0x0A
       \<or> strip (last (load_ssh_config_lines (Some ''Host z\<newline>''))) \<noteq> []" by code_simp
  have 4: "load_ssh_config_lines (Some ''Host z'') = []
       \<or> last (last (load_ssh_config_lines (Some ''Host z''))) = CHR 0x0A
       \<or> strip (last (load_ssh_config_lines (Some ''Host z''))) \<noteq> []" by code_simp
  from update_host_config_file_idempotent [OF 1 2 3, of "''# rp:managed''"]
    update_host_config_file_idempotent [OF 1 2 4, of "''# rp:managed''"]
  show ?thesis by simp
qed

section \<open>Remove and prune on the file\<close>

lemma concat_lines_from: "concat (lines_from cur s) = cur @ s"
  by (induction s arbitrary: cur) auto

lemma concat_readlines: "CHR 0x0D \<notin> set c \<Longrightarrow> concat (readlines c) = c"
  by (simp add: readlines_def universal_newlines_id concat_lines_from)

lemma split_at_block:
  fixes xs :: "'a list"
  assumes "s \<le> e"
  shows "xs = take s xs @ py_slice xs s e @ drop e xs"
proof -
  have "take (e - s) (drop s xs) @ drop (e - s) (drop s xs) = drop s xs"
    by (rule append_take_drop_id)
  moreover have "drop (e - s) (drop s xs) = drop e xs" using assms by simp
  ultimately have "py_slice xs s e @ drop e xs = drop s xs" by (simp add: py_slice_def)
  then have "take s xs @ py_slice xs s e @ drop e xs = take s xs @ drop s xs" by simp
  then show ?thesis by simp
qed

text \<open>
  C4 as stated fails: reading translates CR LF to LF, so after the managed block of a
  CR LF file is removed or pruned the lines of the unmanaged block are written with LF
  ends; the block's lines as they stood in the file are not in the rewritten file.
\<close>

theorem crlf_block_rewritten_by_remove_and_prune:
  "remove_host_config_file ''# rp:managed''
     (Some (''Host m'' @ CHR 0x0D # ''\<newline>  # rp:managed x'' @ CHR 0x0D # ''\<newline>Host u''
            @ CHR 0x0D # ''\<newline>  HostName h'' @ CHR 0x0D # ''\<newline>'')) ''m''
     = (Some ''Host u\<newline>  HostName h\<newline>'', True)
   \<and> prune_managed_blocks_file ''# rp:managed''
     (Some (''Host m'' @ CHR 0x0D # ''\<newline>  # rp:managed x'' @ CHR 0x0D # ''\<newline>Host u''
            @ CHR 0x0D # ''\<newline>  HostName h'' @ CHR 0x0D # ''\<newline>'')) {}
     = (Some ''Host u\<newline>  HostName h\<newline>'', 1)
   \<and> \<not> py_in (''Host u'' @ CHR 0x0D # ''\<newline>'') ''Host u\<newline>  HostName h\<newline>''
   \<and> \<not> py_in (''  HostName h'' @ CHR 0x0D # ''\<newline>'') ''Host u\<newline>  HostName h\<newline>''"
  by code_simp

text \<open>
  C4, amended. Let \<open>u\<close> be an unmanaged block of the document loaded from the file.
  After \<^verbatim>\<open>remove_host_config\<close> with any alias and after \<^verbatim>\<open>prune_managed_blocks\<close> with
  any set of valid aliases, a file that is rewritten holds: the surviving lines that stood
  before \<open>u\<close>, then the lines of \<open>u\<close> as loaded (line ends CR LF and CR read as LF),
  unchanged and in their order, then the surviving lines that stood after it; a file that
  is not rewritten is untouched. When the file holds no CR, the loaded lines of \<open>u\<close> are
  the very bytes of the file between the text before and the text after the block.
\<close>

theorem unmanaged_block_text_preserved:
  assumes mem: "u \<in> set (SSHManager_parse_ssh_blocks mp (load_ssh_config_lines conf))"
    and um: "\<not> managed u"
  shows "start u < end_index u \<and> end_index u \<le> length (load_ssh_config_lines conf)
   \<and> fst (remove_host_config_file mp conf a)
       = (if snd (remove_host_config mp (load_ssh_config_lines conf) a)
          then Some (concat (kept (load_ssh_config_lines conf) (\<lambda>b. managed b \<and> a \<in> set (hosts b))
                       (SSHManager_parse_ssh_blocks mp (load_ssh_config_lines conf)) 0 (start u))
                     @ concat (py_slice (load_ssh_config_lines conf) (start u) (end_index u))
                     @ concat (kept (load_ssh_config_lines conf) (\<lambda>b. managed b \<and> a \<in> set (hosts b))
                         (SSHManager_parse_ssh_blocks mp (load_ssh_config_lines conf))
                         (end_index u) (length (load_ssh_config_lines conf))))
          else conf)
   \<and> fst (prune_managed_blocks_file mp conf valid_aliases)
       = (if snd (prune_managed_blocks mp (load_ssh_config_lines conf) valid_aliases) \<noteq> 0
          then Some (concat (kept (load_ssh_config_lines conf)
                       (\<lambda>b. managed b \<and> set (hosts b) \<inter> valid_aliases = {})
                       (SSHManager_parse_ssh_blocks mp (load_ssh_config_lines conf)) 0 (start u))
                     @ concat (py_slice (load_ssh_config_lines conf) (start u) (end_index u))
                     @ concat (kept (load_ssh_config_lines conf)
                         (\<lambda>b. managed b \<and> set (hosts b) \<inter> valid_aliases = {})
                         (SSHManager_parse_ssh_blocks mp (load_ssh_config_lines conf))
                         (end_index u) (length (load_ssh_config_lines conf))))
          else conf)
   \<and> (\<forall>c. conf = Some c \<and> CHR 0x0D \<notin> set c \<longrightarrow>
        c = concat (take (start u) (load_ssh_config_lines conf))
            @ concat (py_slice (load_ssh_config_lines conf) (start u) (end_index u))
            @ concat (drop (end_index u) (load_ssh_config_lines conf)))"
proof -
  let ?L = "load_ssh_config_lines conf"
  let ?bs = "SSHManager_parse_ssh_blocks mp ?L"
  let ?Pr = "\<lambda>b. managed b \<and> a \<in> set (hosts b)"
  let ?Pp = "\<lambda>b. managed b \<and> set (hosts b) \<inter> valid_aliases = {}"
  from blocks_ordered_mem[OF parse_ordered mem]
  have 1: "start u < end_index u \<and> end_index u \<le> length ?L" by simp
  have r: "fst (remove_host_config mp ?L a)
       = kept ?L ?Pr ?bs 0 (start u) @ py_slice ?L (start u) (end_index u)
         @ kept ?L ?Pr ?bs (end_index u) (length ?L)"
    using kept_retains_block[OF parse_ordered mem, where P = ?Pr] um
    by (simp add: remove_host_config_eq)
  have p: "fst (prune_managed_blocks mp ?L valid_aliases)
       = kept ?L ?Pp ?bs 0 (start u) @ py_slice ?L (start u) (end_index u)
         @ kept ?L ?Pp ?bs (end_index u) (length ?L)"
    using kept_retains_block[OF parse_ordered mem, where P = ?Pp] um
    by (simp add: prune_managed_blocks_eq)
  have 2: "fst (remove_host_config_file mp conf a)
       = (if snd (remove_host_config mp ?L a)
          then Some (concat (kept ?L ?Pr ?bs 0 (start u)) @ concat (py_slice ?L (start u) (end_index u))
                     @ concat (kept ?L ?Pr ?bs (end_index u) (length ?L)))
          else conf)"
    unfolding remove_host_config_file_def Let_def fst_conv write_ssh_config_lines_def r by simp
  have 3: "fst (prune_managed_blocks_file mp conf valid_aliases)
       = (if snd (prune_managed_blocks mp ?L valid_aliases) \<noteq> 0
          then Some (concat (kept ?L ?Pp ?bs 0 (start u)) @ concat (py_slice ?L (start u) (end_index u))
                     @ concat (kept ?L ?Pp ?bs (end_index u) (length ?L)))
          else conf)"
    unfolding prune_managed_blocks_file_def Let_def fst_conv write_ssh_config_lines_def p by simp
  have 4: "\<forall>c. conf = Some c \<and> CHR 0x0D \<notin> set c \<longrightarrow>
        c = concat (take (start u) ?L) @ concat (py_slice ?L (start u) (end_index u))
            @ concat (drop (end_index u) ?L)"
  proof (intro allI impI)
    fix c assume c: "conf = Some c \<and> CHR 0x0D \<notin> set c"
    then have "concat ?L = c" by (simp add: load_ssh_config_lines_def concat_readlines)
    moreover from 1 have "?L = take (start u) ?L @ py_slice ?L (start u) (end_index u) @ drop (end_index u) ?L"
      by (intro split_at_block) simp
    then have "concat ?L = concat (take (start u) ?L @ py_slice ?L (start u) (end_index u) @ drop (end_index u) ?L)"
      by (rule arg_cong)
    ultimately show "c = concat (take (start u) ?L) @ concat (py_slice ?L (start u) (end_index u))
            @ concat (drop (end_index u) ?L)"
      by simp
  qed
  show ?thesis
    apply (intro conjI)
    apply (rule 1[THEN conjunct1]) apply (rule 1[THEN conjunct2])
    apply (rule 2) apply (rule 3) apply (rule 4)
    done
qed

theorem unmanaged_block_text_preserved_witness:
  "fst (remove_host_config_file ''# rp:managed''
     (Some ''Host m\<newline>  # rp:managed x\<newline>Host u\<newline>  HostName h\<newline>'') ''m'')
     = Some ''Host u\<newline>  HostName h\<newline>''
   \<and> fst (prune_managed_blocks_file ''# rp:managed''
     (Some ''Host m\<newline>  # rp:managed x\<newline>Host u\<newline>  HostName h\<newline>'') {})
     = Some ''Host u\<newline>  HostName h\<newline>''
   \<and> ''Host m\<newline>  # rp:managed x\<newline>Host u\<newline>  HostName h\<newline>''
     = ''Host m\<newline>  # rp:managed x\<newline>'' @ ''Host u\<newline>  HostName h\<newline>'' @ []"
proof -
  let ?c = "''Host m\<newline>  # rp:managed x\<newline>Host u\<newline>  HostName h\<newline>''"
  let ?L = "load_ssh_config_lines (Some ?c)"
  let ?u = "\<lparr>start = 2, end_index = 4, hosts = [''u''], managed = False, marker_index = - 1\<rparr>"
  let ?bs = "SSHManager_parse_ssh_blocks ''# rp:managed'' ?L"
  let ?R = "\<lambda>b. managed b \<and> ''m'' \<in> set (hosts b)"
  let ?Q = "\<lambda>b. managed b \<and> set (hosts b) \<inter> {} = {}"
  have mem: "?u \<in> set ?bs" by code_simp
  have um: "\<not> managed ?u" by simp
  note t = unmanaged_block_text_preserved [OF mem um, of "''m''" "{}"]
  have s1: "snd (remove_host_config ''# rp:managed'' ?L ''m'')" by code_simp
  have s2: "snd (prune_managed_blocks ''# rp:managed'' ?L {}) \<noteq> 0" by code_simp
  have k1: "concat (kept ?L ?R ?bs 0 (start ?u)) = []" by code_simp
  have k2: "concat (kept ?L ?R ?bs (end_index ?u) (length ?L)) = []" by code_simp
  have k3: "concat (kept ?L ?Q ?bs 0 (start ?u)) = []" by code_simp
  have k4: "concat (kept ?L ?Q ?bs (end_index ?u) (length ?L)) = []" by code_simp
  have u: "concat (py_slice ?L (start ?u) (end_index ?u)) = ''Host u\<newline>  HostName h\<newline>''" by code_simp
  have b: "concat (take (start ?u) ?L) = ''Host m\<newline>  # rp:managed x\<newline>''" by code_simp
  have d: "concat (drop (end_index ?u) ?L) = []" by code_simp
  have cr: "Some ?c = Some ?c \<and> CHR 0x0D \<notin> set ?c" by simp
  from t have "fst (remove_host_config_file ''# rp:managed'' (Some ?c) ''m'')
      = Some (concat (kept ?L ?R ?bs 0 (start ?u)) @ concat (py_slice ?L (start ?u) (end_index ?u))
              @ concat (kept ?L ?R ?bs (end_index ?u) (length ?L)))"
    using s1 by simp
  then have 1: "fst (remove_host_config_file ''# rp:managed'' (Some ?c) ''m'')
      = Some ''Host u\<newline>  HostName h\<newline>''"
    unfolding k1 k2 u by simp
  from t have "fst (prune_managed_blocks_file ''# rp:managed'' (Some ?c) {})
      = Some (concat (kept ?L ?Q ?bs 0 (start ?u)) @ concat (py_slice ?L (start ?u) (end_index ?u))
              @ concat (kept ?L ?Q ?bs (end_index ?u) (length ?L)))"
    using s2 by simp
  then have 2: "fst (prune_managed_blocks_file ''# rp:managed'' (Some ?c) {})
      = Some ''Host u\<newline>  HostName h\<newline>''"
    unfolding k3 k4 u by simp
  from t cr have "?c = concat (take (start ?u) ?L) @ concat (py_slice ?L (start ?u) (end_index ?u))
      @ concat (drop (end_index ?u) ?L)"
    by blast
  then have 3: "?c = ''Host m\<newline>  # rp:managed x\<newline>'' @ ''Host u\<newline>  HostName h\<newline>'' @ []"
    unfolding b u d .
  from 1 2 3 show ?thesis by blast
qed

section \<open>Reading a host back: properties\<close>

lemma scan_blocks_absent:
  "\<forall>b \<in> set bs. a \<in> set (hosts b) \<and> managed b \<longrightarrow>
      \<not> complete_fields (read_block_fields py_int mp lines b) \<Longrightarrow>
   scan_blocks py_int mp lines a bs = Inr None"
  by (induction bs) (auto simp: complete_fields_def Let_def)

lemma scan_blocks_first:
  "bs = pre @ b # post \<Longrightarrow>
   \<forall>p \<in> set pre. a \<in> set (hosts p) \<and> managed p \<longrightarrow>
      \<not> complete_fields (read_block_fields py_int mp lines p) \<Longrightarrow>
   a \<in> set (hosts b) \<Longrightarrow> managed b \<Longrightarrow> complete_fields (read_block_fields py_int mp lines b) \<Longrightarrow>
   scan_blocks py_int mp lines a bs =
     (case new_SSHConfig a (the (f_pod_id (read_block_fields py_int mp lines b)))
             (the (f_hostname (read_block_fields py_int mp lines b)))
             (the (f_port (read_block_fields py_int mp lines b)))
             (f_user (read_block_fields py_int mp lines b))
             (f_identity_file (read_block_fields py_int mp lines b)) of
        Inl e \<Rightarrow> Inl e | Inr c \<Rightarrow> Inr (Some c))"
  by (induction pre arbitrary: bs) (auto simp: complete_fields_def Let_def)

lemma scan_blocks_some:
  "scan_blocks py_int mp lines a bs = Inr (Some c) \<Longrightarrow>
   \<exists>b \<in> set bs. a \<in> set (hosts b) \<and> managed b
     \<and> host_alias c = a
     \<and> f_hostname (read_block_fields py_int mp lines b) = Some (hostname c)
     \<and> f_port (read_block_fields py_int mp lines b) = Some (port c)
     \<and> f_pod_id (read_block_fields py_int mp lines b) = Some (pod_id c)
     \<and> user c = f_user (read_block_fields py_int mp lines b)
     \<and> identity_file c = f_identity_file (read_block_fields py_int mp lines b)"
proof (induction bs)
  case Nil
  then show ?case by simp
next
  case (Cons b bs)
  let ?st = "read_block_fields py_int mp lines b"
  show ?case
  proof (cases "a \<in> set (hosts b) \<and> managed b \<and> complete_fields ?st")
    case True
    with Cons.prems have "new_SSHConfig a (the (f_pod_id ?st)) (the (f_hostname ?st))
        (the (f_port ?st)) (f_user ?st) (f_identity_file ?st) = Inr c"
      by (auto simp: complete_fields_def Let_def split: sum.splits)
    then have c: "c = \<lparr>host_alias = a, pod_id = the (f_pod_id ?st), hostname = the (f_hostname ?st),
        port = the (f_port ?st), user = f_user ?st, identity_file = f_identity_file ?st\<rparr>"
      by (auto simp: new_SSHConfig_def split: if_splits)
    from True have "f_hostname ?st \<noteq> None" "f_port ?st \<noteq> None" "f_pod_id ?st \<noteq> None"
      by (auto simp: complete_fields_def truthy_str_def truthy_int_def split: option.splits)
    with c True show ?thesis by auto
  next
    case False
    with Cons.prems have "scan_blocks py_int mp lines a bs = Inr (Some c)"
      by (auto simp: complete_fields_def Let_def split: if_splits)
    from Cons.IH[OF this] show ?thesis by auto
  qed
qed

lemma port_line_not_hostname: "startswith l ''Port '' \<Longrightarrow> \<not> startswith l ''HostName ''"
  by (cases l) (auto simp: startswith_def)

lemma scan_line_malformed_port:
  "startswith (strip raw) ''Port '' \<Longrightarrow> py_int (strip (drop 5 (strip raw))) = None \<Longrightarrow>
   scan_line py_int mp st raw = st"
  using port_line_not_hostname[of "strip raw"] by (simp add: scan_line_def Let_def)

lemma foldl_field_last:
  assumes "\<And>st x. fld (f st x) = (if S x then V x else fld st)"
  shows "fld (foldl f st0 xs) = (case List.find S (rev xs) of None \<Rightarrow> fld st0 | Some x \<Rightarrow> V x)"
  using assms by (induction xs rule: rev_induct) auto

lemma user_line_excl: "startswith l ''User '' \<Longrightarrow> \<not> startswith l ''HostName '' \<and> \<not> startswith l ''Port ''"
  by (cases l) (auto simp: startswith_def)

lemma identity_line_excl:
  "startswith l ''IdentityFile '' \<Longrightarrow>
   \<not> startswith l ''HostName '' \<and> \<not> startswith l ''Port '' \<and> \<not> startswith l ''User ''"
  by (cases l) (auto simp: startswith_def)

lemma scan_line_hostname_eq:
  "f_hostname (scan_line py_int mp st raw) =
     (if startswith (strip raw) ''HostName '' then Some (strip (drop 9 (strip raw))) else f_hostname st)"
  by (simp add: scan_line_def Let_def split: option.splits)

lemma scan_line_port_eq:
  "f_port (scan_line py_int mp st raw) =
     (if startswith (strip raw) ''Port '' \<and> py_int (strip (drop 5 (strip raw))) \<noteq> None
      then py_int (strip (drop 5 (strip raw))) else f_port st)"
  using port_line_not_hostname[of "strip raw"]
  by (auto simp: scan_line_def Let_def split: option.splits)

lemma scan_line_user_eq:
  "f_user (scan_line py_int mp st raw) =
     (if startswith (strip raw) ''User '' then strip (drop 5 (strip raw)) else f_user st)"
  using user_line_excl[of "strip raw"]
  by (auto simp: scan_line_def Let_def split: option.splits)

lemma scan_line_identity_file_eq:
  "f_identity_file (scan_line py_int mp st raw) =
     (if startswith (strip raw) ''IdentityFile '' then Some (strip (drop 13 (strip raw)))
      else f_identity_file st)"
  using identity_line_excl[of "strip raw"]
  by (auto simp: scan_line_def Let_def split: option.splits)

lemma scan_line_pod_id_eq:
  "f_pod_id (scan_line py_int mp st raw) =
     (if sets_pod_id mp (strip raw) then search_pod_id (strip raw) else f_pod_id st)"
  by (auto simp: scan_line_def Let_def sets_pod_id_def split: option.splits)

lemma body_fold:
  assumes "\<And>st raw. fld (scan_line py_int mp st raw) = (if S (strip raw) then V (strip raw) else fld st)"
  shows "fld (read_block_fields py_int mp lines b) =
     (case last_line S lines b of
        None \<Rightarrow> fld \<lparr>f_hostname = None, f_port = None, f_user = ''root'', f_identity_file = None,
                    f_pod_id = None\<rparr>
      | Some i \<Rightarrow> V (strip (lines ! i)))"
  unfolding read_block_fields_def last_line_def
  by (rule foldl_field_last[where S = "\<lambda>i. S (strip (lines ! i))" and V = "\<lambda>i. V (strip (lines ! i))"])
     (simp add: assms)

text \<open>
  C8, amended. For every document and alias, and whatever \<^verbatim>\<open>int\<close> accepts:
  \<^verbatim>\<open>get_host_config\<close> goes through the managed blocks that have the alias, in document
  order, and uses the first one whose hostname, port and pod id are all present (and the
  port not zero). The result is absent, not an error, when there is no such block. When
  there is one and its port is a port number (1 to 65535), the result is the record with
  the alias and that block's fields. A record that is returned always comes from a
  managed block with the alias. The fields of a block are: the hostname of its last
  \<^verbatim>\<open>HostName\<close> line; the port of its last \<^verbatim>\<open>Port\<close> line whose value \<^verbatim>\<open>int\<close> accepts;
  the user of its last \<^verbatim>\<open>User\<close> line, \<^verbatim>\<open>root\<close> when there is none; the identity
  file of its last \<^verbatim>\<open>IdentityFile\<close> line, absent when there is none; the pod id found
  by \<^verbatim>\<open>pod_id=\<close> in its last marker line. A \<^verbatim>\<open>Port\<close> line whose value \<^verbatim>\<open>int\<close>
  rejects changes nothing. What happens for a port outside 1 to 65535 is left open.
\<close>

theorem get_host_config_reads_first_complete_block:
  "((\<forall>b \<in> set (SSHManager_parse_ssh_blocks mp lines). a \<in> set (hosts b) \<and> managed b \<longrightarrow>
        \<not> complete_fields (read_block_fields py_int mp lines b))
      \<longrightarrow> get_host_config py_int mp lines a = Inr None)
   \<and> (\<forall>pre b post h n p.
        SSHManager_parse_ssh_blocks mp lines = pre @ b # post
        \<and> (\<forall>q \<in> set pre. a \<in> set (hosts q) \<and> managed q \<longrightarrow>
              \<not> complete_fields (read_block_fields py_int mp lines q))
        \<and> a \<in> set (hosts b) \<and> managed b
        \<and> f_hostname (read_block_fields py_int mp lines b) = Some h \<and> h \<noteq> []
        \<and> f_port (read_block_fields py_int mp lines b) = Some n \<and> 1 \<le> n \<and> n \<le> 65535
        \<and> f_pod_id (read_block_fields py_int mp lines b) = Some p \<and> p \<noteq> [] \<longrightarrow>
        get_host_config py_int mp lines a
          = Inr (Some \<lparr>host_alias = a, pod_id = p, hostname = h, port = n,
                       user = f_user (read_block_fields py_int mp lines b),
                       identity_file = f_identity_file (read_block_fields py_int mp lines b)\<rparr>))
   \<and> (\<forall>c. get_host_config py_int mp lines a = Inr (Some c) \<longrightarrow>
        (\<exists>b \<in> set (SSHManager_parse_ssh_blocks mp lines). a \<in> set (hosts b) \<and> managed b
           \<and> host_alias c = a
           \<and> f_hostname (read_block_fields py_int mp lines b) = Some (hostname c)
           \<and> f_port (read_block_fields py_int mp lines b) = Some (port c)
           \<and> f_pod_id (read_block_fields py_int mp lines b) = Some (pod_id c)
           \<and> user c = f_user (read_block_fields py_int mp lines b)
           \<and> identity_file c = f_identity_file (read_block_fields py_int mp lines b)))
   \<and> (\<forall>b. f_hostname (read_block_fields py_int mp lines b)
          = (case last_line (\<lambda>l. startswith l ''HostName '') lines b of
               None \<Rightarrow> None | Some i \<Rightarrow> Some (strip (drop 9 (strip (lines ! i))))))
   \<and> (\<forall>b. f_port (read_block_fields py_int mp lines b)
          = (case last_line (\<lambda>l. startswith l ''Port '' \<and> py_int (strip (drop 5 l)) \<noteq> None) lines b of
               None \<Rightarrow> None | Some i \<Rightarrow> py_int (strip (drop 5 (strip (lines ! i))))))
   \<and> (\<forall>b. f_user (read_block_fields py_int mp lines b)
          = (case last_line (\<lambda>l. startswith l ''User '') lines b of
               None \<Rightarrow> ''root'' | Some i \<Rightarrow> strip (drop 5 (strip (lines ! i)))))
   \<and> (\<forall>b. f_identity_file (read_block_fields py_int mp lines b)
          = (case last_line (\<lambda>l. startswith l ''IdentityFile '') lines b of
               None \<Rightarrow> None | Some i \<Rightarrow> Some (strip (drop 13 (strip (lines ! i))))))
   \<and> (\<forall>b. f_pod_id (read_block_fields py_int mp lines b)
          = (case last_line (sets_pod_id mp) lines b of
               None \<Rightarrow> None | Some i \<Rightarrow> search_pod_id (strip (lines ! i))))
   \<and> (\<forall>st raw. startswith (strip raw) ''Port '' \<and> py_int (strip (drop 5 (strip raw))) = None
        \<longrightarrow> scan_line py_int mp st raw = st)"
proof -
  let ?bs = "SSHManager_parse_ssh_blocks mp lines"
  let ?F = "read_block_fields py_int mp lines"
  have 1: "(\<forall>b \<in> set ?bs. a \<in> set (hosts b) \<and> managed b \<longrightarrow> \<not> complete_fields (?F b))
      \<longrightarrow> get_host_config py_int mp lines a = Inr None"
    unfolding get_host_config_def by (intro impI scan_blocks_absent) blast
  have 2: "\<forall>pre b post h n p.
        ?bs = pre @ b # post
        \<and> (\<forall>q \<in> set pre. a \<in> set (hosts q) \<and> managed q \<longrightarrow> \<not> complete_fields (?F q))
        \<and> a \<in> set (hosts b) \<and> managed b
        \<and> f_hostname (?F b) = Some h \<and> h \<noteq> []
        \<and> f_port (?F b) = Some n \<and> 1 \<le> n \<and> n \<le> 65535
        \<and> f_pod_id (?F b) = Some p \<and> p \<noteq> [] \<longrightarrow>
        get_host_config py_int mp lines a
          = Inr (Some \<lparr>host_alias = a, pod_id = p, hostname = h, port = n,
                       user = f_user (?F b), identity_file = f_identity_file (?F b)\<rparr>)"
  proof (intro allI impI)
    fix pre b post h n p
    assume h: "?bs = pre @ b # post
        \<and> (\<forall>q \<in> set pre. a \<in> set (hosts q) \<and> managed q \<longrightarrow> \<not> complete_fields (?F q))
        \<and> a \<in> set (hosts b) \<and> managed b
        \<and> f_hostname (?F b) = Some h \<and> h \<noteq> []
        \<and> f_port (?F b) = Some n \<and> 1 \<le> n \<and> n \<le> 65535
        \<and> f_pod_id (?F b) = Some p \<and> p \<noteq> []"
    then have c: "complete_fields (?F b)"
      by (simp add: complete_fields_def truthy_str_def truthy_int_def)
    from h have pre: "\<forall>q \<in> set pre. a \<in> set (hosts q) \<and> managed q \<longrightarrow> \<not> complete_fields (?F q)"
      by blast
    from h have "?bs = pre @ b # post" "a \<in> set (hosts b)" "managed b" by auto
    from scan_blocks_first[OF this(1) pre this(2,3) c] h
    show "get_host_config py_int mp lines a
          = Inr (Some \<lparr>host_alias = a, pod_id = p, hostname = h, port = n,
                       user = f_user (?F b), identity_file = f_identity_file (?F b)\<rparr>)"
      by (simp add: get_host_config_def new_SSHConfig_def)
  qed
  have 3: "\<forall>c. get_host_config py_int mp lines a = Inr (Some c) \<longrightarrow>
        (\<exists>b \<in> set ?bs. a \<in> set (hosts b) \<and> managed b \<and> host_alias c = a
           \<and> f_hostname (?F b) = Some (hostname c) \<and> f_port (?F b) = Some (port c)
           \<and> f_pod_id (?F b) = Some (pod_id c) \<and> user c = f_user (?F b)
           \<and> identity_file c = f_identity_file (?F b))"
    unfolding get_host_config_def using scan_blocks_some[of py_int mp lines a ?bs] by blast
  have 4: "\<forall>b. f_hostname (?F b)
          = (case last_line (\<lambda>l. startswith l ''HostName '') lines b of
               None \<Rightarrow> None | Some i \<Rightarrow> Some (strip (drop 9 (strip (lines ! i)))))"
    using body_fold[where fld = f_hostname and S = "\<lambda>l. startswith l ''HostName ''"
        and V = "\<lambda>l. Some (strip (drop 9 l))", OF scan_line_hostname_eq]
    by (simp split: option.split)
  have 5: "\<forall>b. f_port (?F b)
          = (case last_line (\<lambda>l. startswith l ''Port '' \<and> py_int (strip (drop 5 l)) \<noteq> None) lines b of
               None \<Rightarrow> None | Some i \<Rightarrow> py_int (strip (drop 5 (strip (lines ! i)))))"
    using body_fold[where fld = f_port
        and S = "\<lambda>l. startswith l ''Port '' \<and> py_int (strip (drop 5 l)) \<noteq> None"
        and V = "\<lambda>l. py_int (strip (drop 5 l))", OF scan_line_port_eq]
    by (simp split: option.split)
  have 6: "\<forall>b. f_user (?F b)
          = (case last_line (\<lambda>l. startswith l ''User '') lines b of
               None \<Rightarrow> ''root'' | Some i \<Rightarrow> strip (drop 5 (strip (lines ! i))))"
    using body_fold[where fld = f_user and S = "\<lambda>l. startswith l ''User ''"
        and V = "\<lambda>l. strip (drop 5 l)", OF scan_line_user_eq]
    by (simp split: option.split)
  have 7: "\<forall>b. f_identity_file (?F b)
          = (case last_line (\<lambda>l. startswith l ''IdentityFile '') lines b of
               None \<Rightarrow> None | Some i \<Rightarrow> Some (strip (drop 13 (strip (lines ! i)))))"
    using body_fold[where fld = f_identity_file and S = "\<lambda>l. startswith l ''IdentityFile ''"
        and V = "\<lambda>l. Some (strip (drop 13 l))", OF scan_line_identity_file_eq]
    by (simp split: option.split)
  have 8: "\<forall>b. f_pod_id (?F b)
          = (case last_line (sets_pod_id mp) lines b of
               None \<Rightarrow> None | Some i \<Rightarrow> search_pod_id (strip (lines ! i)))"
    using body_fold[where fld = f_pod_id and S = "sets_pod_id mp"
        and V = "search_pod_id", OF scan_line_pod_id_eq]
    by (simp split: option.split)
  have 9: "\<forall>st raw. startswith (strip raw) ''Port '' \<and> py_int (strip (drop 5 (strip raw))) = None
        \<longrightarrow> scan_line py_int mp st raw = st"
    by (auto intro: scan_line_malformed_port)
  show ?thesis
    apply (intro conjI)
    apply (rule 1) apply (rule 2) apply (rule 3) apply (rule 4) apply (rule 5)
    apply (rule 6) apply (rule 7) apply (rule 8) apply (rule 9)
    done
qed

text \<open>
  C8 as stated fails. With two managed blocks for the alias, the first without
  \<^verbatim>\<open>HostName\<close>, the result is not absent: the loop goes on and returns the record of
  the second block. And with \<^verbatim>\<open>Port 70000\<close> the lookup returns neither a record nor
  absent: the constructor raises.
\<close>

theorem get_host_config_falls_through_and_raises:
  "f_hostname (read_block_fields python_int ''# rp:managed''
      [''Host a\<newline>'', ''  # rp:managed pod_id=p1\<newline>'', ''  Port 22\<newline>'',
       ''Host a\<newline>'', ''  # rp:managed pod_id=p9\<newline>'', ''  HostName h\<newline>'', ''  Port 22\<newline>'']
      \<lparr>start = 0, end_index = 3, hosts = [''a''], managed = True, marker_index = 1\<rparr>) = None
   \<and> SSHManager_parse_ssh_blocks ''# rp:managed''
      [''Host a\<newline>'', ''  # rp:managed pod_id=p1\<newline>'', ''  Port 22\<newline>'',
       ''Host a\<newline>'', ''  # rp:managed pod_id=p9\<newline>'', ''  HostName h\<newline>'', ''  Port 22\<newline>'']
     = [\<lparr>start = 0, end_index = 3, hosts = [''a''], managed = True, marker_index = 1\<rparr>,
        \<lparr>start = 3, end_index = 7, hosts = [''a''], managed = True, marker_index = 4\<rparr>]
   \<and> get_host_config python_int ''# rp:managed''
      [''Host a\<newline>'', ''  # rp:managed pod_id=p1\<newline>'', ''  Port 22\<newline>'',
       ''Host a\<newline>'', ''  # rp:managed pod_id=p9\<newline>'', ''  HostName h\<newline>'', ''  Port 22\<newline>''] ''a''
     = Inr (Some \<lparr>host_alias = ''a'', pod_id = ''p9'', hostname = ''h'', port = 22, user = ''root'',
                  identity_file = None\<rparr>)
   \<and> get_host_config python_int ''# rp:managed''
      [''Host a\<newline>'', ''  # rp:managed pod_id=p9\<newline>'', ''  HostName h\<newline>'', ''  Port 70000\<newline>''] ''a''
     = Inl ValidationError"
  by code_simp

theorem get_host_config_reads_first_complete_block_witness:
  "get_host_config python_int ''# rp:managed''
     [''Host a\<newline>'', ''  # rp:managed pod_id=p1\<newline>'', ''  Port 22\<newline>'',
      ''Host a b\<newline>'', ''  # rp:managed alias=a pod_id=p9 updated=T\<newline>'', ''  HostName old\<newline>'',
      ''  HostName h\<newline>'', ''  Port 2222\<newline>'', ''  Port x\<newline>'', ''  User bob\<newline>'',
      ''  IdentityFile ~/k\<newline>'', ''  # rp:managed xpod_id=zz\<newline>''] ''a''
     = Inr (Some \<lparr>host_alias = ''a'', pod_id = ''p9'', hostname = ''h'', port = 2222,
                  user = ''bob'', identity_file = Some ''~/k''\<rparr>)
   \<and> get_host_config python_int ''# rp:managed''
       [''Host a\<newline>'', ''  HostName h\<newline>'', ''  Port 22\<newline>''] ''a''
     = Inr None"
proof -
  let ?mp = "''# rp:managed''"
  let ?L = "[''Host a\<newline>'', ''  # rp:managed pod_id=p1\<newline>'', ''  Port 22\<newline>'',
      ''Host a b\<newline>'', ''  # rp:managed alias=a pod_id=p9 updated=T\<newline>'', ''  HostName old\<newline>'',
      ''  HostName h\<newline>'', ''  Port 2222\<newline>'', ''  Port x\<newline>'', ''  User bob\<newline>'',
      ''  IdentityFile ~/k\<newline>'', ''  # rp:managed xpod_id=zz\<newline>'']"
  let ?U = "[''Host a\<newline>'', ''  HostName h\<newline>'', ''  Port 22\<newline>'']"
  let ?b1 = "\<lparr>start = 0, end_index = 3, hosts = [''a''], managed = True, marker_index = 1\<rparr>"
  let ?b2 = "\<lparr>start = 3, end_index = 12, hosts = [''a'', ''b''], managed = True, marker_index = 4\<rparr>"
  let ?F = "read_block_fields python_int ?mp ?L"
  note t = get_host_config_reads_first_complete_block
    [where mp = ?mp and lines = ?L and a = "''a''" and py_int = python_int]
  note t4 = t[THEN conjunct2, THEN conjunct2, THEN conjunct2, THEN conjunct1, THEN spec, of ?b2]
  note t5 = t[THEN conjunct2, THEN conjunct2, THEN conjunct2, THEN conjunct2, THEN conjunct1,
      THEN spec, of ?b2]
  note t6 = t[THEN conjunct2, THEN conjunct2, THEN conjunct2, THEN conjunct2, THEN conjunct2,
      THEN conjunct1, THEN spec, of ?b2]
  note t7 = t[THEN conjunct2, THEN conjunct2, THEN conjunct2, THEN conjunct2, THEN conjunct2,
      THEN conjunct2, THEN conjunct1, THEN spec, of ?b2]
  note t8 = t[THEN conjunct2, THEN conjunct2, THEN conjunct2, THEN conjunct2, THEN conjunct2,
      THEN conjunct2, THEN conjunct2, THEN conjunct1, THEN spec, of ?b2]
  have l4: "last_line (\<lambda>l. startswith l ''HostName '') ?L ?b2 = Some 6" by code_simp
  have l5: "last_line (\<lambda>l. startswith l ''Port '' \<and> python_int (strip (drop 5 l)) \<noteq> None) ?L ?b2 = Some 7"
    by code_simp
  have l6: "last_line (\<lambda>l. startswith l ''User '') ?L ?b2 = Some 9" by code_simp
  have l7: "last_line (\<lambda>l. startswith l ''IdentityFile '') ?L ?b2 = Some 10" by code_simp
  have l8: "last_line (sets_pod_id ?mp) ?L ?b2 = Some 4" by code_simp
  have v4: "strip (drop 9 (strip (?L ! 6))) = ''h''" by code_simp
  have v5: "python_int (strip (drop 5 (strip (?L ! 7)))) = Some 2222" by code_simp
  have v6: "strip (drop 5 (strip (?L ! 9))) = ''bob''" by code_simp
  have v7: "strip (drop 13 (strip (?L ! 10))) = ''~/k''" by code_simp
  have v8: "search_pod_id (strip (?L ! 4)) = Some ''p9''" by code_simp
  have f4: "f_hostname (?F ?b2) = Some ''h''" unfolding t4 l4 option.case v4 ..
  have f5: "f_port (?F ?b2) = Some 2222" unfolding t5 l5 option.case v5 ..
  have f6: "f_user (?F ?b2) = ''bob''" unfolding t6 l6 option.case v6 ..
  have f7: "f_identity_file (?F ?b2) = Some ''~/k''" unfolding t7 l7 option.case v7 ..
  have f8: "f_pod_id (?F ?b2) = Some ''p9''" unfolding t8 l8 option.case v8 ..
  have p: "SSHManager_parse_ssh_blocks ?mp ?L = [?b1] @ ?b2 # []" by code_simp
  have q: "\<forall>q \<in> set [?b1]. ''a'' \<in> set (hosts q) \<and> managed q \<longrightarrow> \<not> complete_fields (?F q)"
    by code_simp
  have hyp: "SSHManager_parse_ssh_blocks ?mp ?L = [?b1] @ ?b2 # []
        \<and> (\<forall>q \<in> set [?b1]. ''a'' \<in> set (hosts q) \<and> managed q \<longrightarrow> \<not> complete_fields (?F q))
        \<and> ''a'' \<in> set (hosts ?b2) \<and> managed ?b2
        \<and> f_hostname (?F ?b2) = Some ''h'' \<and> ''h'' \<noteq> []
        \<and> f_port (?F ?b2) = Some 2222 \<and> (1::int) \<le> 2222 \<and> (2222::int) \<le> 65535
        \<and> f_pod_id (?F ?b2) = Some ''p9'' \<and> ''p9'' \<noteq> []"
    apply (intro conjI)
    apply (rule p) apply (rule q) apply simp apply simp apply (rule f4) apply simp
    apply (rule f5) apply simp apply simp apply (rule f8) apply simp
    done
  from t[THEN conjunct2, THEN conjunct1] hyp
  have "get_host_config python_int ?mp ?L ''a''
      = Inr (Some \<lparr>host_alias = ''a'', pod_id = ''p9'', hostname = ''h'', port = 2222,
                   user = f_user (?F ?b2), identity_file = f_identity_file (?F ?b2)\<rparr>)"
    by blast
  then have 1: "get_host_config python_int ?mp ?L ''a''
      = Inr (Some \<lparr>host_alias = ''a'', pod_id = ''p9'', hostname = ''h'', port = 2222,
                   user = ''bob'', identity_file = Some ''~/k''\<rparr>)"
    by (simp only: f6 f7)
  have "\<forall>b \<in> set (SSHManager_parse_ssh_blocks ?mp ?U). ''a'' \<in> set (hosts b) \<and> managed b \<longrightarrow>
          \<not> complete_fields (read_block_fields python_int ?mp ?U b)"
    by code_simp
  then have 2: "get_host_config python_int ?mp ?U ''a'' = Inr None"
    by (rule get_host_config_reads_first_complete_block [where mp = ?mp and lines = ?U
          and a = "''a''" and py_int = python_int, THEN conjunct1, THEN mp])
  from 1 2 show ?thesis by blast
qed

end
